theory Spec2Isabelle
  imports Main
begin

section \<open>pg\_check\_conn: the embedding of src/pg\_check\_conn.cpp\<close>

text \<open>
  Strings are byte strings (\<open>std::string\<close>, \<open>const char*\<close>): \<^typ>\<open>string\<close>.
  \<open>std::string::npos\<close> is \<^term>\<open>None\<close> of an \<^typ>\<open>nat option\<close>; a found position
  is \<^term>\<open>Some pos\<close>. A thrown exception is the \<open>Inl\<close> of a sum.
\<close>

subsection \<open>Token utilities (lines 33-53)\<close>

text \<open>\<open>const char whitespace[] = " \t\n\r\f\v"\<close>\<close>

definition whitespace :: string where
  "whitespace = [CHR '' '', CHR 0x09, CHR 0x0A, CHR 0x0D, CHR 0x0C, CHR 0x0B]"

text \<open>\<open>str.find_first_not_of(chars)\<close>: the first position holding a character outside
  \<open>chars\<close>, \<open>npos\<close> when there is none.\<close>

fun find_first_not_of :: "string \<Rightarrow> string \<Rightarrow> nat option" where
  "find_first_not_of [] chars = None"
| "find_first_not_of (c # cs) chars =
     (if c \<in> set chars then map_option Suc (find_first_not_of cs chars) else Some 0)"

text \<open>\<open>str.find_last_not_of(chars)\<close>: the last such position, \<open>npos\<close> when there is none.\<close>

fun find_last_not_of :: "string \<Rightarrow> string \<Rightarrow> nat option" where
  "find_last_not_of [] chars = None"
| "find_last_not_of (c # cs) chars =
     (case find_last_not_of cs chars of
        Some i \<Rightarrow> Some (Suc i)
      | None \<Rightarrow> (if c \<in> set chars then None else Some 0))"

text \<open>\<open>str.find(ch, 0)\<close>: the first position of \<open>ch\<close>, \<open>npos\<close> when there is none.\<close>

fun find_char :: "string \<Rightarrow> char \<Rightarrow> nat option" where
  "find_char [] ch = None"
| "find_char (c # cs) ch = (if c = ch then Some 0 else map_option Suc (find_char cs ch))"

text \<open>\<open>str.erase(index, count)\<close> removes \<open>min(count, size - index)\<close> characters from
  \<open>index\<close> on; the count \<open>npos\<close> (the default) removes up to the end. Both calls of the
  source have \<open>index \<le> size\<close>, where \<open>erase\<close> does not throw.\<close>

fun erase :: "string \<Rightarrow> nat \<Rightarrow> nat option \<Rightarrow> string" where
  "erase str index None = take index str"
| "erase str index (Some count) = take index str @ drop (index + count) str"

definition ltrim :: "string \<Rightarrow> string" where
  "ltrim str = erase str 0 (find_first_not_of str whitespace)"

definition rtrim :: "string \<Rightarrow> string" where
  "rtrim str =
     (case find_last_not_of str whitespace of
        Some pos \<Rightarrow> erase str (pos + 1) None
      | None \<Rightarrow> [])"

definition trim :: "string \<Rightarrow> string" where
  "trim str = ltrim (rtrim str)"

subsection \<open>Exceptions\<close>

text \<open>The exceptions the program throws, each with its \<open>what()\<close> text. \<open>ConnException\<close>
  (lines 91-94) is the only one the first handler catches; \<open>other_exception\<close> stands for
  any further \<open>std::exception\<close> of the runtime (\<open>std::bad_alloc\<close> and the like).\<close>

datatype exn =
    out_of_range string
  | runtime_error string
  | ConnException string
  | other_exception string

fun what :: "exn \<Rightarrow> string" where
  "what (out_of_range m) = m"
| "what (runtime_error m) = m"
| "what (ConnException m) = m"
| "what (other_exception m) = m"

subsection \<open>Reading an option's value (lines 55-79)\<close>

text \<open>\<open>s[0]\<close> of a C string: its first byte, the terminating NUL when it is empty.\<close>

definition char0 :: "string \<Rightarrow> char" where
  "char0 s = (case s of [] \<Rightarrow> CHR 0x00 | c # _ \<Rightarrow> c)"

text \<open>\<open>argc\<close> is \<open>length argv\<close>.\<close>

definition parse_next_arg :: "string list \<Rightarrow> nat \<Rightarrow> string \<Rightarrow> exn + string" where
  "parse_next_arg argv index errMsg =
     (if index + 1 < length argv \<and> char0 (argv ! (index + 1)) \<noteq> CHR ''-''
      then (let a = trim (argv ! (index + 1)) in
            if a \<noteq> [] then Inr a else Inl (out_of_range errMsg))
      else Inl (out_of_range errMsg))"

definition parse_equal_arg :: "string \<Rightarrow> string \<Rightarrow> exn + string" where
  "parse_equal_arg arg errMsg =
     (case find_char arg (CHR ''='') of
        Some pos \<Rightarrow>
          (if pos < length arg
           then (let a = trim (drop (pos + 1) arg) in
                 if a \<noteq> [] then Inr a else Inl (runtime_error errMsg))
           else Inl (runtime_error errMsg))
      | None \<Rightarrow> Inl (runtime_error errMsg))"

subsection \<open>The argument loop (lines 105-149)\<close>

text \<open>The six local strings of \<open>main\<close>, in their order of declaration; a default-constructed
  \<open>std::string\<close> is empty.\<close>

record ConnSpec =
  database :: string
  username :: string
  host :: string
  hostaddr :: string
  port :: string
  timeout :: string

definition init_spec :: ConnSpec where
  "init_spec = \<lparr>database = [], username = [], host = [], hostaddr = [], port = [], timeout = []\<rparr>"

text \<open>An assignment \<open>field = parse_..._arg(...)\<close> followed by the cursor's updates: the
  exception leaves the loop, the value is stored and the cursor moves to \<open>next\<close>.\<close>

definition assign :: "(string \<Rightarrow> ConnSpec) \<Rightarrow> nat \<Rightarrow> exn + string \<Rightarrow> exn + ConnSpec \<times> nat" where
  "assign store next r = (case r of Inl e \<Rightarrow> Inl e | Inr a \<Rightarrow> Inr (store a, next))"

text \<open>One pass through the body of the \<open>for\<close> loop at \<open>index\<close>, with the loop's own
  \<open>++index\<close>: the new strings and the cursor of the next pass. A short option adds its
  \<open>index++\<close> after the assignment.\<close>

definition loop_body :: "string list \<Rightarrow> nat \<Rightarrow> ConnSpec \<Rightarrow> exn + ConnSpec \<times> nat" where
  "loop_body argv index s =
     (let opt = argv ! index in
      if opt = ''-d'' then
        assign (\<lambda>a. s\<lparr>database := a\<rparr>) (index + 1 + 1)
          (parse_next_arg argv index ''missing database argument'')
      else if take 8 opt = ''--dbname'' then
        assign (\<lambda>a. s\<lparr>database := a\<rparr>) (index + 1)
          (parse_equal_arg opt ''missing database argument'')
      else if opt = ''-U'' then
        assign (\<lambda>a. s\<lparr>username := a\<rparr>) (index + 1 + 1)
          (parse_next_arg argv index ''missing username argument'')
      else if take 10 opt = ''--username'' then
        assign (\<lambda>a. s\<lparr>username := a\<rparr>) (index + 1)
          (parse_equal_arg opt ''missing username argument'')
      else if opt = ''-h'' then
        assign (\<lambda>a. s\<lparr>host := a\<rparr>) (index + 1 + 1)
          (parse_next_arg argv index ''missing hostname argument'')
      else if take 10 opt = ''--hostname'' then
        assign (\<lambda>a. s\<lparr>host := a\<rparr>) (index + 1)
          (parse_equal_arg opt ''missing hostname argument'')
      else if take 10 opt = ''--hostaddr'' then
        assign (\<lambda>a. s\<lparr>hostaddr := a\<rparr>) (index + 1)
          (parse_equal_arg opt ''missing hostaddr argument'')
      else if opt = ''-p'' then
        assign (\<lambda>a. s\<lparr>port := a\<rparr>) (index + 1 + 1)
          (parse_next_arg argv index ''missing port argument'')
      else if take 6 opt = ''--port'' then
        assign (\<lambda>a. s\<lparr>port := a\<rparr>) (index + 1)
          (parse_equal_arg opt ''missing port argument'')
      else if opt = ''-t'' then
        assign (\<lambda>a. s\<lparr>timeout := a\<rparr>) (index + 1 + 1)
          (parse_next_arg argv index ''missing timeout argument'')
      else if take 9 opt = ''--timeout'' then
        assign (\<lambda>a. s\<lparr>timeout := a\<rparr>) (index + 1)
          (parse_equal_arg opt ''missing timeout argument'')
      else Inr (s, index + 1))"

lemma assign_next: "assign store next r = Inr (s', i') \<Longrightarrow> i' = next"
  by (cases r) (auto simp: assign_def)

lemma loop_body_advances:
  "loop_body argv index s = Inr (s', index') \<Longrightarrow> index' = index + 1 \<or> index' = index + 2"
  unfolding loop_body_def Let_def
  by (auto split: if_splits dest!: assign_next)

function parse_loop :: "string list \<Rightarrow> nat \<Rightarrow> ConnSpec \<Rightarrow> exn + ConnSpec" where
  "parse_loop argv index s =
     (if index < length argv
      then (case loop_body argv index s of
              Inl e \<Rightarrow> Inl e
            | Inr (s', index') \<Rightarrow> parse_loop argv index' s')
      else Inr s)"
  by pat_completeness auto
termination
proof (relation "measure (\<lambda>(argv, index, s). length argv - index)")
  show "wf (measure (\<lambda>(argv, index, s). length argv - index))" by simp
next
  fix argv :: "string list" and index :: nat and s :: ConnSpec and x2 x y
  assume "index < length argv" "loop_body argv index s = Inr x2" "(x, y) = x2"
  then have "loop_body argv index s = Inr (x, y)" by simp
  then have "y = index + 1 \<or> y = index + 2" by (rule loop_body_advances)
  with \<open>index < length argv\<close>
  show "((argv, y, x), argv, index, s) \<in> measure (\<lambda>(argv, index, s). length argv - index)"
    by auto
qed

text \<open>The loop starts at \<open>index = 1\<close>, after the program's name.\<close>

definition parse_args :: "string list \<Rightarrow> exn + ConnSpec" where
  "parse_args argv = parse_loop argv 1 init_spec"

subsection \<open>The connection string (lines 81-89, 152-183)\<close>

text \<open>\<open>is_empty(const std::string&)\<close>\<close>

definition is_empty :: "string \<Rightarrow> bool" where
  "is_empty arg = (arg = [])"

text \<open>The stream \<open>connstr\<close> is the string written so far; each \<open>if\<close> appends to it.\<close>

definition build_connstr :: "ConnSpec \<Rightarrow> string" where
  "build_connstr s =
     (let connstr = [];
          connstr = (if \<not> is_empty (database s)
                     then connstr @ ''dbname='' @ database s @ '' '' else connstr);
          connstr = (if \<not> is_empty (username s)
                     then connstr @ ''user='' @ username s @ '' '' else connstr);
          connstr = (if \<not> is_empty (hostaddr s)
                     then connstr @ ''hostaddr='' @ hostaddr s @ '' '' else connstr);
          connstr = (if \<not> is_empty (host s)
                     then connstr @ ''host='' @ host s @ '' '' else connstr);
          connstr = (if \<not> is_empty (port s)
                     then connstr @ ''port='' @ port s @ '' '' else connstr);
          connstr = (if \<not> is_empty (timeout s)
                     then connstr @ ''connect_timeout='' @ timeout s @ '' '' else connstr)
      in connstr)"

subsection \<open>The client library (libpq-fe.h, not part of the repository)\<close>

text \<open>The program uses four functions of the library and one constant. The functions are
  parameters of the model: \<open>'c\<close> is the connection object a non-null \<open>PGconn*\<close> points to,
  \<^term>\<open>None\<close> the null pointer. \<open>PQstatus\<close> is only called on a non-null handle (the
  \<open>||\<close> of line 193 and the test of line 208 guard it); \<open>PQerrorMessage\<close> is called on
  whatever \<open>PQconnectdb\<close> returned. \<open>PQfinish\<close> returns nothing and is an event of the
  trace below.\<close>

record 'c libpq =
  PQconnectdb :: "string \<Rightarrow> 'c option"
  PQstatus :: "'c \<Rightarrow> int"
  PQerrorMessage :: "'c option \<Rightarrow> string"

text \<open>\<open>CONNECTION_OK\<close> is the first enumerator of the library's \<open>ConnStatusType\<close>, so its
  value as an \<open>int\<close> is 0.\<close>

definition CONNECTION_OK :: int where
  "CONNECTION_OK = 0"

subsection \<open>\<open>main\<close> (lines 98-227)\<close>

text \<open>What the process does to the outside, in order: a line on standard output, a line
  on standard error, the call of \<open>PQconnectdb\<close> with its argument, the call of
  \<open>PQfinish\<close>.\<close>

datatype event = Stdout string | Stderr string | Connect string | Finish

text \<open>\<open>std::endl\<close> writes a newline.\<close>

definition endl :: string where
  "endl = [CHR 0x0A]"

text \<open>Lines 186-189; \<open>pgdebug\<close> is the result of \<open>getenv("PGDEBUG")\<close>, \<^term>\<open>None\<close> when the
  variable is not set.\<close>

definition debug_logging :: "string option \<Rightarrow> string \<Rightarrow> event list" where
  "debug_logging pgdebug connstr =
     (case pgdebug of
        None \<Rightarrow> []
      | Some v \<Rightarrow> (if char0 v = CHR ''1''
                   then [Stdout (''Conn string: '' @ connstr @ endl)] else []))"

text \<open>The \<open>try\<close> block (lines 103-202): the events so far, the value of \<open>conn\<close> when the
  block is left, and the exception that left it, or \<open>Inr ()\<close> when it ran to its end.\<close>

definition try_block ::
  "'c libpq \<Rightarrow> string option \<Rightarrow> string list \<Rightarrow> event list \<times> 'c option \<times> (exn + unit)" where
  "try_block lib pgdebug argv =
     (case parse_args argv of
        Inl e \<Rightarrow> ([], None, Inl e)
      | Inr s \<Rightarrow>
          (let connstr = build_connstr s;
               events = debug_logging pgdebug connstr @ [Connect connstr];
               conn = PQconnectdb lib connstr
           in if (case conn of None \<Rightarrow> True | Some c \<Rightarrow> PQstatus lib c \<noteq> CONNECTION_OK)
              then (events, conn, Inl (ConnException (PQerrorMessage lib conn)))
              else (events, conn, Inr ())))"

text \<open>The two handlers (lines 203-220): the line written and the value of \<open>ret\<close>. Without
  an exception \<open>ret\<close> keeps the 0 of lines 101 and 201.\<close>

definition handlers :: "'c libpq \<Rightarrow> 'c option \<Rightarrow> exn + unit \<Rightarrow> event list \<times> int" where
  "handlers lib conn r =
     (case r of
        Inr u \<Rightarrow> ([], 0)
      | Inl (ConnException m) \<Rightarrow>
          ([Stdout (''Error: '' @ m @ endl)],
           (case conn of Some c \<Rightarrow> PQstatus lib c | None \<Rightarrow> - 1))
      | Inl ex \<Rightarrow> ([Stderr (''Error: '' @ what ex @ endl)], - 1))"

text \<open>The whole program: the trace of events and the value \<open>main\<close> returns.\<close>

definition main :: "'c libpq \<Rightarrow> string option \<Rightarrow> string list \<Rightarrow> event list \<times> int" where
  "main lib pgdebug argv =
     (let (events, conn, r) = try_block lib pgdebug argv;
          (report, ret) = handlers lib conn r;
          finish = (case conn of Some c \<Rightarrow> [Finish] | None \<Rightarrow> [])
      in (events @ report @ finish, ret))"

subsection \<open>The option table and the vocabulary of the properties\<close>

text \<open>The rows of the \<open>if\<close> chain of lines 112-148 that read the next argument: the text
  the option is compared with, the message handed to \<open>parse_next_arg\<close>, and the string
  that is assigned.\<close>

definition short_opts :: "(string \<times> string \<times> (string \<Rightarrow> ConnSpec \<Rightarrow> ConnSpec)) list" where
  "short_opts =
     [(''-d'', ''missing database argument'', \<lambda>a s. s\<lparr>database := a\<rparr>),
      (''-U'', ''missing username argument'', \<lambda>a s. s\<lparr>username := a\<rparr>),
      (''-h'', ''missing hostname argument'', \<lambda>a s. s\<lparr>host := a\<rparr>),
      (''-p'', ''missing port argument'', \<lambda>a s. s\<lparr>port := a\<rparr>),
      (''-t'', ''missing timeout argument'', \<lambda>a s. s\<lparr>timeout := a\<rparr>)]"

text \<open>The rows that read the value after \<open>=\<close>: the prefix \<open>opt.substr(0, n)\<close> is compared
  with (\<open>n\<close> is its length), the message handed to \<open>parse_equal_arg\<close>, and the string that
  is assigned.\<close>

definition long_opts :: "(string \<times> string \<times> (string \<Rightarrow> ConnSpec \<Rightarrow> ConnSpec)) list" where
  "long_opts =
     [(''--dbname'', ''missing database argument'', \<lambda>a s. s\<lparr>database := a\<rparr>),
      (''--username'', ''missing username argument'', \<lambda>a s. s\<lparr>username := a\<rparr>),
      (''--hostname'', ''missing hostname argument'', \<lambda>a s. s\<lparr>host := a\<rparr>),
      (''--hostaddr'', ''missing hostaddr argument'', \<lambda>a s. s\<lparr>hostaddr := a\<rparr>),
      (''--port'', ''missing port argument'', \<lambda>a s. s\<lparr>port := a\<rparr>),
      (''--timeout'', ''missing timeout argument'', \<lambda>a s. s\<lparr>timeout := a\<rparr>)]"

text \<open>The six strings, as selectors.\<close>

definition fields :: "(ConnSpec \<Rightarrow> string) list" where
  "fields = [database, username, host, hostaddr, port, timeout]"

text \<open>A string is trimmed when it is not empty and neither begins nor ends with a
  character of \<^const>\<open>whitespace\<close>.\<close>

definition trimmed :: "string \<Rightarrow> bool" where
  "trimmed s = (s \<noteq> [] \<and> hd s \<notin> set whitespace \<and> last s \<notin> set whitespace)"

text \<open>The part of a token after its first \<open>=\<close> (empty when there is none).\<close>

definition after_equal :: "string \<Rightarrow> string" where
  "after_equal tok = tl (dropWhile (\<lambda>c. c \<noteq> CHR ''='') tok)"

text \<open>Two behaviours of the client library, for examples: no handle at all, and a handle
  whose status is 1 (\<open>CONNECTION_BAD\<close>) with the server's message.\<close>

definition lib_no_handle :: "unit libpq" where
  "lib_no_handle =
     \<lparr>PQconnectdb = (\<lambda>conninfo. None),
      PQstatus = (\<lambda>c. 1),
      PQerrorMessage = (\<lambda>conn. ''out of memory'')\<rparr>"

definition lib_refused :: "unit libpq" where
  "lib_refused =
     \<lparr>PQconnectdb = (\<lambda>conninfo. Some ()),
      PQstatus = (\<lambda>c. 1),
      PQerrorMessage = (\<lambda>conn. ''connection refused'')\<rparr>"

definition lib_accepting :: "unit libpq" where
  "lib_accepting =
     \<lparr>PQconnectdb = (\<lambda>conninfo. Some ()),
      PQstatus = (\<lambda>c. CONNECTION_OK),
      PQerrorMessage = (\<lambda>conn. [])\<rparr>"


section \<open>Auxiliary facts\<close>

subsection \<open>Trimming and searching\<close>

lemma erase_first_not_of:
  "erase str 0 (find_first_not_of str chars) = dropWhile (\<lambda>c. c \<in> set chars) str"
proof (induction str)
  case Nil
  show ?case by simp
next
  case (Cons c cs)
  then show ?case by (cases "find_first_not_of cs chars") auto
qed

lemma ltrim_dropWhile: "ltrim str = dropWhile (\<lambda>c. c \<in> set whitespace) str"
  unfolding ltrim_def by (rule erase_first_not_of)

lemma find_last_not_of_None:
  "find_last_not_of str chars = None \<longleftrightarrow> (\<forall>c \<in> set str. c \<in> set chars)"
  by (induction str) (auto split: option.splits)

lemma find_last_not_of_Some:
  "find_last_not_of str chars = Some pos \<Longrightarrow>
     pos < length str \<and> take (pos + 1) str = rev (dropWhile (\<lambda>c. c \<in> set chars) (rev str))"
proof (induction str arbitrary: pos)
  case Nil
  then show ?case by simp
next
  case (Cons c cs)
  show ?case
  proof (cases "find_last_not_of cs chars")
    case None
    then have all: "\<forall>c \<in> set cs. c \<in> set chars" by (simp add: find_last_not_of_None)
    from Cons.prems None have "c \<notin> set chars" "pos = 0" by (auto split: if_splits)
    with all show ?thesis by (simp add: dropWhile_append)
  next
    case (Some i)
    then have nall: "\<not> (\<forall>c \<in> set cs. c \<in> set chars)"
      using find_last_not_of_None [of cs chars] by simp
    from Cons.prems Some have pos: "pos = Suc i" by simp
    from Cons.IH [OF Some] nall pos show ?thesis by (auto simp add: dropWhile_append)
  qed
qed

lemma rtrim_rev: "rtrim str = rev (dropWhile (\<lambda>c. c \<in> set whitespace) (rev str))"
proof (cases "find_last_not_of str whitespace")
  case None
  then have "\<forall>c \<in> set (rev str). c \<in> set whitespace" by (simp add: find_last_not_of_None)
  then have "dropWhile (\<lambda>c. c \<in> set whitespace) (rev str) = []" by (simp only: dropWhile_eq_Nil_conv) 
  with None show ?thesis by (simp add: rtrim_def)
next
  case (Some pos)
  from find_last_not_of_Some [OF Some] Some show ?thesis by (simp add: rtrim_def)
qed

lemma trim_eq:
  "trim str = dropWhile (\<lambda>c. c \<in> set whitespace) (rev (dropWhile (\<lambda>c. c \<in> set whitespace) (rev str)))"
  unfolding trim_def ltrim_dropWhile rtrim_rev by (rule refl)

lemma last_dropWhile_rev:
  "dropWhile P (rev xs) \<noteq> [] \<Longrightarrow> \<not> P (last (rev (dropWhile P (rev xs))))"
  by (simp add: last_rev hd_dropWhile)

lemma last_dropWhile: "dropWhile P xs \<noteq> [] \<Longrightarrow> last (dropWhile P xs) = last xs"
  by (induction xs) (auto split: if_splits)

lemma trim_trimmed: "trim str \<noteq> [] \<Longrightarrow> trimmed (trim str)"
proof -
  let ?P = "\<lambda>c. c \<in> set whitespace"
  let ?r = "rev (dropWhile ?P (rev str))"
  assume ne: "trim str \<noteq> []"
  then have ne': "dropWhile ?P ?r \<noteq> []" by (simp add: trim_eq)
  then have "?r \<noteq> []" by (metis dropWhile.simps(1))
  then have r: "dropWhile ?P (rev str) \<noteq> []" by simp
  have "\<not> ?P (hd (dropWhile ?P ?r))" using ne' by (rule hd_dropWhile)
  moreover have "last (dropWhile ?P ?r) = last ?r" using ne' by (rule last_dropWhile)
  moreover have "\<not> ?P (last ?r)" using r by (rule last_dropWhile_rev)
  ultimately show ?thesis using ne by (simp add: trimmed_def trim_eq)
qed

lemma dropWhile_all_iff: "(\<forall>x \<in> set (dropWhile P xs). P x) \<longleftrightarrow> (\<forall>x \<in> set xs. P x)"
proof
  assume a: "\<forall>x \<in> set (dropWhile P xs). P x"
  have "dropWhile P xs = []"
  proof (rule ccontr)
    assume ne: "dropWhile P xs \<noteq> []"
    then have "\<not> P (hd (dropWhile P xs))" by (rule hd_dropWhile)
    moreover from ne have "hd (dropWhile P xs) \<in> set (dropWhile P xs)" by (rule hd_in_set)
    ultimately show False using a by blast
  qed
  then show "\<forall>x \<in> set xs. P x" by (simp only: dropWhile_eq_Nil_conv)
next
  assume "\<forall>x \<in> set xs. P x"
  then show "\<forall>x \<in> set (dropWhile P xs). P x" by (blast dest: set_dropWhileD)
qed

lemma trim_Nil_iff: "trim str = [] \<longleftrightarrow> (\<forall>c \<in> set str. c \<in> set whitespace)"
proof -
  let ?P = "\<lambda>c. c \<in> set whitespace"
  have "trim str = [] \<longleftrightarrow> (\<forall>x \<in> set (dropWhile ?P (rev str)). ?P x)"
    unfolding trim_eq dropWhile_eq_Nil_conv set_rev ..
  also have "\<dots> \<longleftrightarrow> (\<forall>x \<in> set (rev str). ?P x)" by (rule dropWhile_all_iff)
  also have "\<dots> \<longleftrightarrow> (\<forall>x \<in> set str. ?P x)" unfolding set_rev ..
  finally show ?thesis .
qed

lemma find_char_None: "find_char str ch = None \<longleftrightarrow> ch \<notin> set str"
  by (induction str) auto

lemma find_char_Some:
  "find_char str ch = Some pos \<Longrightarrow>
     pos < length str \<and> drop (pos + 1) str = tl (dropWhile (\<lambda>c. c \<noteq> ch) str)"
proof (induction str arbitrary: pos)
  case Nil
  then show ?case by simp
next
  case (Cons c cs)
  show ?case
  proof (cases "c = ch")
    case True
    with Cons.prems show ?thesis by simp
  next
    case False
    with Cons.prems obtain p where p: "find_char cs ch = Some p" and pos: "pos = Suc p"
      by auto
    from Cons.IH [OF p] pos False show ?thesis by simp
  qed
qed

lemma find_char_append:
  "ch \<notin> set pre \<Longrightarrow> find_char (pre @ ch # v) ch = Some (length pre)"
  by (induction pre) auto

subsection \<open>Reading a value\<close>

lemma parse_next_arg_eq:
  "parse_next_arg argv index msg =
     (if index + 1 < length argv \<and> char0 (argv ! (index + 1)) \<noteq> CHR ''-''
         \<and> trim (argv ! (index + 1)) \<noteq> []
      then Inr (trim (argv ! (index + 1))) else Inl (out_of_range msg))"
  by (simp add: parse_next_arg_def Let_def)

lemma parse_equal_arg_eq:
  "parse_equal_arg arg msg =
     (if CHR ''='' \<in> set arg \<and> trim (after_equal arg) \<noteq> []
      then Inr (trim (after_equal arg)) else Inl (runtime_error msg))"
proof (cases "find_char arg (CHR ''='')")
  case None
  then have "CHR ''='' \<notin> set arg" by (simp add: find_char_None)
  with None show ?thesis by (simp add: parse_equal_arg_def)
next
  case (Some pos)
  then have "CHR ''='' \<in> set arg" using find_char_None [of arg "CHR ''=''"] by simp
  moreover from find_char_Some [OF Some]
  have "pos < length arg" "drop (pos + 1) arg = after_equal arg"
    by (simp_all add: after_equal_def)
  ultimately show ?thesis using Some by (simp add: parse_equal_arg_def Let_def)
qed

lemma char0_dash: "char0 s = CHR ''-'' \<longleftrightarrow> take 1 s = ''-''"
  by (cases s) (simp_all add: char0_def)

lemma prefix_split: "take (length p) s = p \<Longrightarrow> \<exists>r. s = p @ r"
  by (metis append_take_drop_id)


lemma assign_Inr:
  "assign store n r = Inr (s', i') \<longleftrightarrow> (\<exists>a. r = Inr a \<and> s' = store a \<and> i' = n)"
  by (cases r) (auto simp: assign_def)

lemma assign_Inl: "assign store n r = Inl e \<longleftrightarrow> r = Inl e"
  by (cases r) (auto simp: assign_def)

lemma loop_body_d: "argv ! index = ''-d'' \<Longrightarrow> loop_body argv index s =
    assign (\<lambda>a. s\<lparr>database := a\<rparr>) (index + 2) (parse_next_arg argv index ''missing database argument'')"
  by (simp add: loop_body_def)

lemma loop_body_U: "argv ! index = ''-U'' \<Longrightarrow> loop_body argv index s =
    assign (\<lambda>a. s\<lparr>username := a\<rparr>) (index + 2) (parse_next_arg argv index ''missing username argument'')"
  by (simp add: loop_body_def)

lemma loop_body_h: "argv ! index = ''-h'' \<Longrightarrow> loop_body argv index s =
    assign (\<lambda>a. s\<lparr>host := a\<rparr>) (index + 2) (parse_next_arg argv index ''missing hostname argument'')"
  by (simp add: loop_body_def)

lemma loop_body_p: "argv ! index = ''-p'' \<Longrightarrow> loop_body argv index s =
    assign (\<lambda>a. s\<lparr>port := a\<rparr>) (index + 2) (parse_next_arg argv index ''missing port argument'')"
  by (simp add: loop_body_def)

lemma loop_body_t: "argv ! index = ''-t'' \<Longrightarrow> loop_body argv index s =
    assign (\<lambda>a. s\<lparr>timeout := a\<rparr>) (index + 2) (parse_next_arg argv index ''missing timeout argument'')"
  by (simp add: loop_body_def)

lemma loop_body_dbname: "argv ! index = ''--dbname'' @ r \<Longrightarrow> loop_body argv index s =
    assign (\<lambda>a. s\<lparr>database := a\<rparr>) (index + 1) (parse_equal_arg (argv ! index) ''missing database argument'')"
  by (simp add: loop_body_def)

lemma loop_body_username: "argv ! index = ''--username'' @ r \<Longrightarrow> loop_body argv index s =
    assign (\<lambda>a. s\<lparr>username := a\<rparr>) (index + 1) (parse_equal_arg (argv ! index) ''missing username argument'')"
  by (simp add: loop_body_def)

lemma loop_body_hostname: "argv ! index = ''--hostname'' @ r \<Longrightarrow> loop_body argv index s =
    assign (\<lambda>a. s\<lparr>host := a\<rparr>) (index + 1) (parse_equal_arg (argv ! index) ''missing hostname argument'')"
  by (simp add: loop_body_def)

lemma loop_body_hostaddr: "argv ! index = ''--hostaddr'' @ r \<Longrightarrow> loop_body argv index s =
    assign (\<lambda>a. s\<lparr>hostaddr := a\<rparr>) (index + 1) (parse_equal_arg (argv ! index) ''missing hostaddr argument'')"
  by (simp add: loop_body_def)

lemma loop_body_port: "argv ! index = ''--port'' @ r \<Longrightarrow> loop_body argv index s =
    assign (\<lambda>a. s\<lparr>port := a\<rparr>) (index + 1) (parse_equal_arg (argv ! index) ''missing port argument'')"
  by (simp add: loop_body_def)

lemma loop_body_timeout: "argv ! index = ''--timeout'' @ r \<Longrightarrow> loop_body argv index s =
    assign (\<lambda>a. s\<lparr>timeout := a\<rparr>) (index + 1) (parse_equal_arg (argv ! index) ''missing timeout argument'')"
  by (simp add: loop_body_def)

subsection \<open>One pass of the loop\<close>

lemma short_opts_cases:
  assumes "(opt, msg, store) \<in> set short_opts"
  shows "(opt = ''-d'' \<and> msg = ''missing database argument'' \<and> store = (\<lambda>a s. s\<lparr>database := a\<rparr>))
    \<or> (opt = ''-U'' \<and> msg = ''missing username argument'' \<and> store = (\<lambda>a s. s\<lparr>username := a\<rparr>))
    \<or> (opt = ''-h'' \<and> msg = ''missing hostname argument'' \<and> store = (\<lambda>a s. s\<lparr>host := a\<rparr>))
    \<or> (opt = ''-p'' \<and> msg = ''missing port argument'' \<and> store = (\<lambda>a s. s\<lparr>port := a\<rparr>))
    \<or> (opt = ''-t'' \<and> msg = ''missing timeout argument'' \<and> store = (\<lambda>a s. s\<lparr>timeout := a\<rparr>))"
  using assms by (simp add: short_opts_def)

lemma long_opts_cases:
  assumes "(name, msg, store) \<in> set long_opts"
  shows "(name = ''--dbname'' \<and> msg = ''missing database argument'' \<and> store = (\<lambda>a s. s\<lparr>database := a\<rparr>))
    \<or> (name = ''--username'' \<and> msg = ''missing username argument'' \<and> store = (\<lambda>a s. s\<lparr>username := a\<rparr>))
    \<or> (name = ''--hostname'' \<and> msg = ''missing hostname argument'' \<and> store = (\<lambda>a s. s\<lparr>host := a\<rparr>))
    \<or> (name = ''--hostaddr'' \<and> msg = ''missing hostaddr argument'' \<and> store = (\<lambda>a s. s\<lparr>hostaddr := a\<rparr>))
    \<or> (name = ''--port'' \<and> msg = ''missing port argument'' \<and> store = (\<lambda>a s. s\<lparr>port := a\<rparr>))
    \<or> (name = ''--timeout'' \<and> msg = ''missing timeout argument'' \<and> store = (\<lambda>a s. s\<lparr>timeout := a\<rparr>))"
  using assms by (simp add: long_opts_def)

lemma loop_body_short:
  assumes "(opt, msg, store) \<in> set short_opts" and "argv ! index = opt"
  shows "loop_body argv index s =
           assign (\<lambda>a. store a s) (index + 2) (parse_next_arg argv index msg)"
  using short_opts_cases [OF assms(1)] assms(2)
  apply (elim disjE conjE)
      apply (simp add: loop_body_d)
     apply (simp add: loop_body_U)
    apply (simp add: loop_body_h)
   apply (simp add: loop_body_p)
  apply (simp add: loop_body_t)
  done

lemma loop_body_long:
  assumes "(name, msg, store) \<in> set long_opts" and "take (length name) (argv ! index) = name"
  shows "loop_body argv index s =
           assign (\<lambda>a. store a s) (index + 1) (parse_equal_arg (argv ! index) msg)"
proof -
  from assms(2) obtain r where r: "argv ! index = name @ r" by (metis append_take_drop_id)
  from long_opts_cases [OF assms(1)] r show ?thesis
    apply (elim disjE conjE)
         apply (simp only: loop_body_dbname)
        apply (simp only: loop_body_username)
       apply (simp only: loop_body_hostname)
      apply (simp only: loop_body_hostaddr)
     apply (simp only: loop_body_port)
    apply (simp only: loop_body_timeout)
    done
qed

lemma assign_InlD:
  "assign store n r = Inl e \<Longrightarrow> r = Inl e"
  by (simp add: assign_Inl)

lemma parse_next_arg_InlD:
  "parse_next_arg argv index m = Inl e \<Longrightarrow> \<exists>msg. e = out_of_range msg \<or> e = runtime_error msg"
  by (auto simp add: parse_next_arg_eq split: if_splits)

lemma parse_equal_arg_InlD:
  "parse_equal_arg arg m = Inl e \<Longrightarrow> \<exists>msg. e = out_of_range msg \<or> e = runtime_error msg"
  by (auto simp add: parse_equal_arg_eq split: if_splits)

lemma loop_body_Inl:
  "loop_body argv index s = Inl e \<Longrightarrow>
     (\<exists>msg. e = out_of_range msg \<or> e = runtime_error msg)"
  unfolding loop_body_def Let_def
  by (auto split: if_splits dest!: assign_InlD dest: parse_next_arg_InlD parse_equal_arg_InlD)


lemma assign_InrD:
  "assign store n r = Inr (s', i') \<Longrightarrow> \<exists>a. r = Inr a \<and> s' = store a \<and> i' = n"
  by (simp add: assign_Inr)

lemma parse_next_arg_InrD:
  "parse_next_arg argv index m = Inr a \<Longrightarrow>
     trimmed a \<and> index + 1 < length argv \<and> char0 (argv ! (index + 1)) \<noteq> CHR ''-''"
  by (auto simp add: parse_next_arg_eq trim_trimmed split: if_splits)

lemma parse_equal_arg_InrD:
  "parse_equal_arg arg m = Inr a \<Longrightarrow> trimmed a"
  by (auto simp add: parse_equal_arg_eq trim_trimmed split: if_splits)

lemma loop_body_Inr:
  "loop_body argv index s = Inr (s', i') \<Longrightarrow>
     s' = s \<or> (\<exists>a. trimmed a \<and>
        (s' = s\<lparr>database := a\<rparr> \<or> s' = s\<lparr>username := a\<rparr> \<or> s' = s\<lparr>host := a\<rparr> \<or>
         s' = s\<lparr>hostaddr := a\<rparr> \<or> s' = s\<lparr>port := a\<rparr> \<or> s' = s\<lparr>timeout := a\<rparr>))"
  unfolding loop_body_def Let_def
  by (auto split: if_splits dest!: assign_InrD parse_next_arg_InrD parse_equal_arg_InrD)

lemma loop_body_skip:
  "loop_body argv index s = Inr (s', index + 2) \<Longrightarrow>
     index + 1 < length argv \<and> char0 (argv ! (index + 1)) \<noteq> CHR ''-''"
  unfolding loop_body_def Let_def
  by (auto split: if_splits dest!: assign_InrD parse_next_arg_InrD)

subsection \<open>The whole loop\<close>

text \<open>The defining equation of \<open>parse_loop\<close> is applied by hand, through the three
  lemmas after it.\<close>

declare parse_loop.simps [simp del]

lemma parse_loop_done: "\<not> index < length argv \<Longrightarrow> parse_loop argv index s = Inr s"
  by (simp add: parse_loop.simps)

lemma parse_loop_Inl_step:
  "index < length argv \<Longrightarrow> loop_body argv index s = Inl e \<Longrightarrow> parse_loop argv index s = Inl e"
  by (simp add: parse_loop.simps)

lemma parse_loop_Inr_step:
  "index < length argv \<Longrightarrow> loop_body argv index s = Inr (s', i') \<Longrightarrow>
     parse_loop argv index s = parse_loop argv i' s'"
  by (simp add: parse_loop.simps)

lemma parse_loop_Inl:
  "parse_loop argv index s = Inl e \<Longrightarrow> \<exists>msg. e = out_of_range msg \<or> e = runtime_error msg"
proof (induction argv index s rule: parse_loop.induct)
  case (1 argv index s)
  show ?case
  proof (cases "index < length argv")
    case False
    with "1.prems" show ?thesis by (simp add: parse_loop_done)
  next
    case True
    show ?thesis
    proof (cases "loop_body argv index s")
      case (Inl e')
      with True "1.prems" have "e' = e" by (simp add: parse_loop_Inl_step)
      with Inl show ?thesis by (blast dest: loop_body_Inl)
    next
      case (Inr p)
      obtain s' i' where p: "p = (s', i')" by (cases p)
      with Inr True "1.prems" have "parse_loop argv i' s' = Inl e"
        by (simp add: parse_loop_Inr_step)
      with "1.IH" [OF True Inr p [symmetric]] show ?thesis .
    qed
  qed
qed

lemma parse_loop_fields:
  "parse_loop argv index s = Inr s' \<Longrightarrow> \<forall>f \<in> set fields. f s' = f s \<or> trimmed (f s')"
proof (induction argv index s rule: parse_loop.induct)
  case (1 argv index s)
  show ?case
  proof (cases "index < length argv")
    case False
    with "1.prems" show ?thesis by (simp add: parse_loop_done)
  next
    case True
    show ?thesis
    proof (cases "loop_body argv index s")
      case (Inl e')
      with True "1.prems" show ?thesis by (simp add: parse_loop_Inl_step)
    next
      case (Inr p)
      obtain s1 i1 where p: "p = (s1, i1)" by (cases p)
      with Inr True "1.prems" have "parse_loop argv i1 s1 = Inr s'"
        by (simp add: parse_loop_Inr_step)
      with "1.IH" [OF True Inr p [symmetric]]
      have ih: "\<forall>f \<in> set fields. f s' = f s1 \<or> trimmed (f s')" .
      from Inr p have "loop_body argv index s = Inr (s1, i1)" by simp
      then have "\<forall>f \<in> set fields. f s1 = f s \<or> trimmed (f s1)"
        by (auto simp add: fields_def dest!: loop_body_Inr)
      with ih show ?thesis by (metis)
    qed
  qed
qed

lemma parse_loop_reaches:
  "i < length argv \<Longrightarrow> char0 (argv ! i) = CHR ''-'' \<Longrightarrow>
   (\<forall>s. \<exists>e. loop_body argv i s = Inl e) \<Longrightarrow> index \<le> i \<Longrightarrow>
   \<exists>e. parse_loop argv index s = Inl e"
proof (induction argv index s rule: parse_loop.induct)
  case (1 argv index s)
  note a = "1.prems"
  from a(4) a(1) have lt: "index < length argv" by simp
  show ?case
  proof (cases "loop_body argv index s")
    case (Inl e)
    with lt show ?thesis by (simp add: parse_loop_Inl_step)
  next
    case (Inr p)
    obtain s1 i1 where p: "p = (s1, i1)" by (cases p)
    with Inr have lb: "loop_body argv index s = Inr (s1, i1)" by simp
    with a(3) have ne: "index \<noteq> i" by (metis sum.distinct(1))
    from lb have adv: "i1 = index + 1 \<or> i1 = index + 2" by (rule loop_body_advances)
    have "i1 \<le> i"
    proof (rule ccontr)
      assume "\<not> i1 \<le> i"
      with adv ne a(4) have i1: "i1 = index + 2" and i: "i = index + 1" by auto
      from lb i1 have "loop_body argv index s = Inr (s1, index + 2)" by simp
      then have "char0 (argv ! (index + 1)) \<noteq> CHR ''-''"
        by (rule loop_body_skip [THEN conjunct2])
      with a(2) i show False by simp
    qed
    from "1.IH" [OF lt Inr p [symmetric] a(1) a(2) a(3) this]
    show ?thesis using lt lb by (simp add: parse_loop_Inr_step)
  qed
qed

lemma parse_loop_short:
  assumes "(opt, msg, store) \<in> set short_opts" and "index < length argv" and "argv ! index = opt"
  shows "parse_loop argv index s =
     (case parse_next_arg argv index msg of
        Inl e \<Rightarrow> Inl e
      | Inr a \<Rightarrow> parse_loop argv (index + 2) (store a s))"
proof (cases "parse_next_arg argv index msg")
  case (Inl e)
  with loop_body_short [OF assms(1,3), of s] have "loop_body argv index s = Inl e"
    by (simp add: assign_def)
  with assms(2) Inl show ?thesis by (simp add: parse_loop_Inl_step)
next
  case (Inr a)
  with loop_body_short [OF assms(1,3), of s] have "loop_body argv index s = Inr (store a s, index + 2)"
    by (simp add: assign_def)
  with assms(2) Inr show ?thesis by (simp add: parse_loop_Inr_step)
qed

lemma parse_loop_long:
  assumes "(name, msg, store) \<in> set long_opts" and "index < length argv"
    and "take (length name) (argv ! index) = name"
  shows "parse_loop argv index s =
     (case parse_equal_arg (argv ! index) msg of
        Inl e \<Rightarrow> Inl e
      | Inr a \<Rightarrow> parse_loop argv (index + 1) (store a s))"
proof (cases "parse_equal_arg (argv ! index) msg")
  case (Inl e)
  with loop_body_long [OF assms(1,3), of s] have "loop_body argv index s = Inl e"
    by (simp add: assign_def)
  with assms(2) Inl show ?thesis by (simp add: parse_loop_Inl_step)
next
  case (Inr a)
  with loop_body_long [OF assms(1,3), of s] have "loop_body argv index s = Inr (store a s, index + 1)"
    by (simp add: assign_def)
  with assms(2) Inr show ?thesis by (simp add: parse_loop_Inr_step)
qed


subsection \<open>Every option begins with a dash\<close>

lemma short_opts_dash: "(opt, msg, store) \<in> set short_opts \<Longrightarrow> char0 opt = CHR ''-''"
  using short_opts_cases [of opt msg store]
  by (elim disjE conjE | simp add: char0_def)+

lemma long_opts_hd:
  assumes "(name, msg, store) \<in> set long_opts"
  shows "\<exists>n. name = CHR ''-'' # n"
  using long_opts_cases [OF assms]
  apply (elim disjE conjE)
       apply simp_all
  done

lemma long_opts_dash:
  assumes "(name, msg, store) \<in> set long_opts" and "take (length name) tok = name"
  shows "char0 tok = CHR ''-''"
proof -
  from assms(2) obtain r where r: "tok = name @ r" by (metis append_take_drop_id)
  from long_opts_hd [OF assms(1)] obtain n where "name = CHR ''-'' # n" ..
  with r show ?thesis by (simp add: char0_def)
qed


subsection \<open>The loop only looks ahead\<close>

lemma parse_next_arg_Cons:
  "parse_next_arg (x # argv) (Suc index) msg = parse_next_arg argv index msg"
  by (simp add: parse_next_arg_def)

lemma assign_Suc:
  "assign store (Suc n) r = map_sum id (apsnd Suc) (assign store n r)"
  by (cases r) (simp_all add: assign_def)

lemma loop_body_Cons:
  "loop_body (x # argv) (Suc index) s = map_sum id (apsnd Suc) (loop_body argv index s)"
  by (simp add: loop_body_def Let_def parse_next_arg_Cons assign_Suc [symmetric]
        if_distrib [of "map_sum id (apsnd Suc)"])

lemma parse_loop_Cons: "parse_loop (x # argv) (Suc index) s = parse_loop argv index s"
proof (induction argv index s rule: parse_loop.induct)
  case (1 argv index s)
  show ?case
  proof (cases "index < length argv")
    case False
    then show ?thesis by (simp add: parse_loop_done)
  next
    case True
    then have lt: "Suc index < length (x # argv)" by simp
    show ?thesis
    proof (cases "loop_body argv index s")
      case (Inl e)
      then have "loop_body (x # argv) (Suc index) s = Inl e" by (simp add: loop_body_Cons)
      with lt Inl True show ?thesis by (simp add: parse_loop_Inl_step)
    next
      case (Inr p)
      obtain s' i' where p: "p = (s', i')" by (cases p)
      with Inr have "loop_body (x # argv) (Suc index) s = Inr (s', Suc i')"
        by (simp add: loop_body_Cons)
      with lt have "parse_loop (x # argv) (Suc index) s = parse_loop (x # argv) (Suc i') s'"
        by (rule parse_loop_Inr_step)
      also have "\<dots> = parse_loop argv i' s'" using "1.IH" [OF True Inr p [symmetric]] .
      also have "\<dots> = parse_loop argv index s"
        using True Inr p by (simp add: parse_loop_Inr_step)
      finally show ?thesis .
    qed
  qed
qed

lemma parse_loop_drop: "parse_loop argv index s = parse_loop (drop index argv) 0 s"
proof (induction argv arbitrary: index)
  case Nil
  show ?case by (simp add: parse_loop_done)
next
  case (Cons x argv)
  show ?case
  proof (cases index)
    case 0
    then show ?thesis by simp
  next
    case (Suc j)
    with Cons.IH [of j] show ?thesis by (simp add: parse_loop_Cons)
  qed
qed

lemma short_opts_one_field:
  assumes "(opt, msg, store) \<in> set short_opts"
  shows "length (filter (\<lambda>f. f (store a s) \<noteq> f s) fields) \<le> 1"
  using short_opts_cases [OF assms]
  apply (elim disjE conjE)
      apply (simp_all add: fields_def)
  done


subsection \<open>The two forms of an option\<close>

lemma long_opts_no_equal:
  assumes "(name, msg, store) \<in> set long_opts"
  shows "CHR ''='' \<notin> set name"
  using long_opts_cases [OF assms]
  apply (elim disjE conjE)
       apply simp_all
  done

lemma after_equal_append: "CHR ''='' \<notin> set pre \<Longrightarrow> after_equal (pre @ CHR ''='' # v) = v"
  by (induction pre) (auto simp add: after_equal_def)

lemma opts_same_store:
  assumes "(sopt, msg, store) \<in> set short_opts" and "(lopt, msg, store') \<in> set long_opts"
  shows "store' = store"
  using short_opts_cases [OF assms(1)] long_opts_cases [OF assms(2)]
  apply (elim disjE conjE)
                      apply simp_all
  done

lemma loop_body_cong:
  assumes "argv ! index = argv' ! index"
    and "\<And>msg. parse_next_arg argv index msg = parse_next_arg argv' index msg"
  shows "loop_body argv index s = loop_body argv' index s"
  unfolding loop_body_def Let_def assms by (rule refl)


lemma parse_next_arg_dash:
  "char0 x = CHR ''-'' \<Longrightarrow> parse_next_arg (p # x # xs) 0 msg = Inl (out_of_range msg)"
  by (simp add: parse_next_arg_def)

lemma parse_loop_context:
  assumes x: "char0 x = CHR ''-''" and y: "char0 y = CHR ''-''"
    and base: "\<And>s. map_sum what id (parse_loop (x # xs) 0 s)
                     = map_sum what id (parse_loop (y # ys) 0 s)"
  shows "map_sum what id (parse_loop (pre @ x # xs) 0 s)
       = map_sum what id (parse_loop (pre @ y # ys) 0 s)"
proof (induction pre arbitrary: s rule: length_induct)
  case (1 pre)
  show ?case
  proof (cases pre)
    case Nil
    with base [of s] show ?thesis by (simp add: id_def)
  next
    case (Cons p ps)
    let ?X = "p # ps @ x # xs" and ?Y = "p # ps @ y # ys"
    have nxt: "\<And>msg. parse_next_arg ?X 0 msg = parse_next_arg ?Y 0 msg"
    proof (cases ps)
      case Nil
      with x y show "\<And>msg. parse_next_arg ?X 0 msg = parse_next_arg ?Y 0 msg"
        by (simp add: parse_next_arg_dash)
    next
      case (Cons q qs)
      then show "\<And>msg. parse_next_arg ?X 0 msg = parse_next_arg ?Y 0 msg"
        by (simp add: parse_next_arg_def)
    qed
    have lb: "loop_body ?X 0 s = loop_body ?Y 0 s"
      by (rule loop_body_cong) (simp, rule nxt)
    show ?thesis
    proof (cases "loop_body ?X 0 s")
      case (Inl e)
      with lb have "parse_loop ?X 0 s = Inl e" "parse_loop ?Y 0 s = Inl e"
        by (simp_all add: parse_loop_Inl_step)
      with Cons show ?thesis by (simp add: id_def)
    next
      case (Inr r)
      obtain s' i' where r: "r = (s', i')" by (cases r)
      with Inr lb have X: "loop_body ?X 0 s = Inr (s', i')" and Y: "loop_body ?Y 0 s = Inr (s', i')"
        by simp_all
      then have pX: "parse_loop ?X 0 s = parse_loop ?X i' s'"
        and pY: "parse_loop ?Y 0 s = parse_loop ?Y i' s'"
        by (simp_all add: parse_loop_Inr_step)
      from X have "i' = 0 + 1 \<or> i' = 0 + 2" by (rule loop_body_advances)
      then show ?thesis
      proof
        assume "i' = 0 + 1"
        then have i': "i' = Suc 0" by simp
        have "length ps < length pre" using Cons by simp
        with "1.IH" have "map_sum what id (parse_loop (ps @ x # xs) 0 s')
            = map_sum what id (parse_loop (ps @ y # ys) 0 s')" by blast
        with pX pY i' Cons show ?thesis by (simp add: parse_loop_Cons id_def)
      next
        assume "i' = 0 + 2"
        then have i': "i' = Suc (Suc 0)" by simp
        with X have "loop_body ?X 0 s = Inr (s', 0 + 2)" by simp
        then have nd: "char0 (?X ! (0 + 1)) \<noteq> CHR ''-''"
          by (rule loop_body_skip [THEN conjunct2])
        with x obtain q qs where ps: "ps = q # qs" by (cases ps) simp_all
        then have "length qs < length pre" using Cons by simp
        with "1.IH" have "map_sum what id (parse_loop (qs @ x # xs) 0 s')
            = map_sum what id (parse_loop (qs @ y # ys) 0 s')" by blast
        with pX pY i' Cons ps show ?thesis by (simp add: parse_loop_Cons id_def)
      qed
    qed
  qed
qed

lemma parse_loop_short_hd:
  assumes "(sopt, msg, store) \<in> set short_opts" and "take 1 v \<noteq> ''-''"
  shows "parse_loop (sopt # v # post) 0 s =
           (if trim v = [] then Inl (out_of_range msg)
            else parse_loop post 0 (store (trim v) s))"
proof -
  have "parse_next_arg (sopt # v # post) 0 msg =
          (if trim v = [] then Inl (out_of_range msg) else Inr (trim v))"
    using assms(2) by (simp add: parse_next_arg_eq char0_dash)
  moreover have "parse_loop (sopt # v # post) (0 + 2) s' = parse_loop post 0 s'" for s'
    using parse_loop_drop [of "sopt # v # post" "0 + 2" s'] by simp
  moreover have "parse_loop (sopt # v # post) 0 s =
     (case parse_next_arg (sopt # v # post) 0 msg of
        Inl e \<Rightarrow> Inl e
      | Inr a \<Rightarrow> parse_loop (sopt # v # post) (0 + 2) (store a s))"
    using assms(1) by (rule parse_loop_short) simp_all
  ultimately show ?thesis by simp
qed

lemma parse_loop_long_hd:
  assumes "(lopt, msg, store) \<in> set long_opts"
  shows "parse_loop ((lopt @ CHR ''='' # v) # post) 0 s =
           (if trim v = [] then Inl (runtime_error msg)
            else parse_loop post 0 (store (trim v) s))"
proof -
  let ?tok = "lopt @ CHR ''='' # v"
  have "after_equal ?tok = v"
    using long_opts_no_equal [OF assms] by (simp add: after_equal_append)
  then have "parse_equal_arg ?tok msg =
          (if trim v = [] then Inl (runtime_error msg) else Inr (trim v))"
    by (simp add: parse_equal_arg_eq)
  moreover have "parse_loop (?tok # post) (0 + 1) s' = parse_loop post 0 s'" for s'
    using parse_loop_drop [of "?tok # post" "0 + 1" s'] by simp
  moreover have "parse_loop (?tok # post) 0 s =
     (case parse_equal_arg ((?tok # post) ! 0) msg of
        Inl e \<Rightarrow> Inl e
      | Inr a \<Rightarrow> parse_loop (?tok # post) (0 + 1) (store a s))"
    using assms by (rule parse_loop_long) simp_all
  ultimately show ?thesis by simp
qed

lemma parse_args_Cons: "parse_args (prog # args) = parse_loop args 0 init_spec"
  using parse_loop_Cons [of prog args 0 init_spec] by (simp add: parse_args_def)


lemma trim_dash: "take 1 v = ''-'' \<Longrightarrow> trim v \<noteq> []"
proof -
  assume "take 1 v = ''-''"
  then obtain r where v: "v = CHR ''-'' # r" by (cases v) simp_all
  have "CHR ''-'' \<notin> set whitespace" by (simp add: whitespace_def)
  with v show ?thesis by (auto simp add: trim_Nil_iff)
qed

lemma loop_body_short_dash:
  assumes "(sopt, msg, store) \<in> set short_opts" and "take 1 v = ''-''"
  shows "loop_body (pre @ sopt # v # post) (length pre) s = Inl (out_of_range msg)"
proof -
  let ?argv = "pre @ sopt # v # post"
  have tok: "?argv ! length pre = sopt" by simp
  have "?argv ! (length pre + 1) = v" by (simp add: nth_append)
  with assms(2) have "parse_next_arg ?argv (length pre) msg = Inl (out_of_range msg)"
    by (simp add: parse_next_arg_eq char0_dash)
  then show ?thesis by (simp add: loop_body_short [OF assms(1) tok] assign_def)
qed

lemma loop_body_long_value:
  assumes "(lopt, msg, store) \<in> set long_opts" and "trim v \<noteq> []"
  shows "loop_body (pre @ (lopt @ CHR ''='' # v) # post) (length pre) s
           = Inr (store (trim v) s, length pre + 1)"
proof -
  let ?tok = "lopt @ CHR ''='' # v"
  let ?argv = "pre @ ?tok # post"
  have tok: "take (length lopt) (?argv ! length pre) = lopt" by simp
  have "after_equal ?tok = v"
    using long_opts_no_equal [OF assms(1)] by (simp add: after_equal_append)
  with assms(2) have "parse_equal_arg ?tok msg = Inr (trim v)"
    by (simp add: parse_equal_arg_eq)
  then show ?thesis by (simp add: loop_body_long [OF assms(1) tok] assign_def)
qed

lemma parse_args_short_dash:
  assumes "(sopt, msg, store) \<in> set short_opts" and "take 1 v = ''-''"
  shows "\<exists>m. parse_args (prog # pre @ sopt # v # post) = Inl (out_of_range m)
           \<or> parse_args (prog # pre @ sopt # v # post) = Inl (runtime_error m)"
proof -
  let ?argv = "pre @ sopt # v # post"
  have lt: "length pre < length ?argv" by simp
  have dash: "char0 (?argv ! length pre) = CHR ''-''"
    using short_opts_dash [OF assms(1)] by simp
  have fails: "\<forall>s. \<exists>e. loop_body ?argv (length pre) s = Inl e"
    using loop_body_short_dash [OF assms, of pre post] by simp
  have "0 \<le> length pre" by simp
  from parse_loop_reaches [OF lt dash fails this, of init_spec]
  obtain e where e: "parse_loop ?argv 0 init_spec = Inl e" ..
  from parse_loop_Inl [OF e] obtain m where "e = out_of_range m \<or> e = runtime_error m" ..
  with e show ?thesis by (auto simp add: parse_args_Cons)
qed

subsection \<open>The runs of \<open>main\<close>\<close>

lemma parse_args_Inl:
  "parse_args argv = Inl ex \<Longrightarrow> \<exists>msg. ex = out_of_range msg \<or> ex = runtime_error msg"
  unfolding parse_args_def by (rule parse_loop_Inl)

lemma main_parse_error:
  assumes "parse_args argv = Inl ex"
  shows "main lib pgdebug argv = ([Stderr (''Error: '' @ what ex @ endl)], - 1)"
proof -
  from parse_args_Inl [OF assms] obtain msg where "ex = out_of_range msg \<or> ex = runtime_error msg" ..
  then show ?thesis
  proof
    assume "ex = out_of_range msg"
    with assms show ?thesis by (simp add: main_def try_block_def handlers_def)
  next
    assume "ex = runtime_error msg"
    with assms show ?thesis by (simp add: main_def try_block_def handlers_def)
  qed
qed

lemma main_no_handle:
  assumes "parse_args argv = Inr s" and "PQconnectdb lib (build_connstr s) = None"
  shows "main lib pgdebug argv =
     (debug_logging pgdebug (build_connstr s) @
        [Connect (build_connstr s), Stdout (''Error: '' @ PQerrorMessage lib None @ endl)], - 1)"
  using assms by (simp add: main_def try_block_def handlers_def Let_def)

lemma main_handle:
  assumes "parse_args argv = Inr s" and "PQconnectdb lib (build_connstr s) = Some c"
  shows "main lib pgdebug argv =
     (if PQstatus lib c = CONNECTION_OK
      then (debug_logging pgdebug (build_connstr s) @ [Connect (build_connstr s), Finish], 0)
      else (debug_logging pgdebug (build_connstr s) @
              [Connect (build_connstr s),
               Stdout (''Error: '' @ PQerrorMessage lib (Some c) @ endl), Finish],
            PQstatus lib c))"
  using assms by (simp add: main_def try_block_def handlers_def Let_def)

lemma debug_logging_eq:
  "debug_logging pgdebug connstr =
     (if \<exists>rest. pgdebug = Some (CHR ''1'' # rest)
      then [Stdout (''Conn string: '' @ connstr @ endl)] else [])"
proof (cases pgdebug)
  case None
  then show ?thesis by (simp add: debug_logging_def)
next
  case (Some v)
  then show ?thesis by (cases v) (simp_all add: debug_logging_def char0_def)
qed

lemma main_trace_split:
  assumes "parse_args argv = Inr s"
  shows "\<exists>rest. fst (main lib pgdebug argv)
            = debug_logging pgdebug (build_connstr s) @ Connect (build_connstr s) # rest
          \<and> (\<forall>e \<in> set rest. \<exists>m. e = Stdout (''Error: '' @ m) \<or> e = Finish)"
proof (cases "PQconnectdb lib (build_connstr s)")
  case None
  with assms show ?thesis by (simp add: main_no_handle)
next
  case (Some c)
  with assms show ?thesis by (simp add: main_handle)
qed

section \<open>Properties\<close>

subsection \<open>The documented round trip\<close>

text \<open>
  C9. Parsing the argument list \<open>-d sales -U alice -h db.internal -p 5433 -t 5\<close> (after the
  program's name) succeeds, and the connection string built from the result is exactly
  \<open>dbname=sales user=alice host=db.internal port=5433 connect_timeout=5 \<close>, with the single
  trailing space.
\<close>

theorem round_trip_example:
  "map_sum id build_connstr
     (parse_args [''pg_check_conn'', ''-d'', ''sales'', ''-U'', ''alice'',
                  ''-h'', ''db.internal'', ''-p'', ''5433'', ''-t'', ''5''])
   = Inr ''dbname=sales user=alice host=db.internal port=5433 connect_timeout=5 ''"
  by code_simp

subsection \<open>Options that take the next argument\<close>

text \<open>
  C3. When the token under the cursor is one of \<open>-d\<close>, \<open>-U\<close>, \<open>-h\<close>, \<open>-p\<close>, \<open>-t\<close>, the pass
  fails with the \<open>out_of_range\<close> error carrying the option's own message (\<open>missing database
  argument\<close> for \<open>-d\<close>, and so on) exactly when there is no next token, or the next token
  begins with \<open>-\<close>, or the next token trims to the empty string. Otherwise the trimmed next
  token is stored in the option's string and the cursor moves two places, past the option and
  its value, where the loop goes on.
\<close>

theorem short_option_consumes_next:
  assumes "(opt, msg, store) \<in> set short_opts" and "index < length argv" and "argv ! index = opt"
  shows "loop_body argv index s =
           (if length argv \<le> index + 1 \<or> take 1 (argv ! (index + 1)) = ''-''
               \<or> trim (argv ! (index + 1)) = []
            then Inl (out_of_range msg)
            else Inr (store (trim (argv ! (index + 1))) s, index + 2))
       \<and> parse_loop argv index s =
           (if length argv \<le> index + 1 \<or> take 1 (argv ! (index + 1)) = ''-''
               \<or> trim (argv ! (index + 1)) = []
            then Inl (out_of_range msg)
            else parse_loop argv (index + 2) (store (trim (argv ! (index + 1))) s))"
proof -
  have "loop_body argv index s = assign (\<lambda>a. store a s) (index + 2) (parse_next_arg argv index msg)"
    using assms(1,3) by (rule loop_body_short)
  moreover note parse_loop_short [OF assms, of s]
  ultimately show ?thesis
    by (simp add: parse_next_arg_eq assign_def char0_dash not_less)
qed

theorem short_option_consumes_next_witness:
  "(''-d'', ''missing database argument'', \<lambda>a s. s\<lparr>database := a\<rparr>) \<in> set short_opts
   \<and> 1 < length [''pg_check_conn'', ''-d'', '' sales '']
   \<and> [''pg_check_conn'', ''-d'', '' sales ''] ! 1 = ''-d''
   \<and> loop_body [''pg_check_conn'', ''-d'', '' sales ''] 1 init_spec
       = Inr (init_spec\<lparr>database := ''sales''\<rparr>, 3)
   \<and> parse_loop [''pg_check_conn'', ''-d'', '' sales ''] 1 init_spec
       = Inr (init_spec\<lparr>database := ''sales''\<rparr>)"
proof -
  let ?argv = "[''pg_check_conn'', ''-d'', '' sales '']"
  have mem: "(''-d'', ''missing database argument'', \<lambda>a s. s\<lparr>database := a\<rparr>) \<in> set short_opts"
    by (simp add: short_opts_def)
  have lt: "1 < length ?argv" by simp
  have tok: "?argv ! 1 = ''-d''" by simp
  have tr: "trim '' sales '' = ''sales''" by code_simp
  from short_option_consumes_next [OF mem lt tok, of init_spec] mem tr
  show ?thesis by (simp add: parse_loop_done)
qed

subsection \<open>Options that carry their value after \<open>=\<close>\<close>

text \<open>
  C4. When the token under the cursor begins with one of the long option names, its value is
  the text after the first \<open>=\<close> of the same token, trimmed. The pass fails with the
  \<open>runtime_error\<close> carrying the option's own message exactly when the token has no \<open>=\<close> or the
  text after the first \<open>=\<close> trims to the empty string; otherwise the value is stored and the
  cursor moves one place.
\<close>

theorem long_option_value_after_equal:
  assumes "(name, msg, store) \<in> set long_opts" and "index < length argv"
    and "take (length name) (argv ! index) = name"
  shows "loop_body argv index s =
           (if CHR ''='' \<notin> set (argv ! index) \<or> trim (after_equal (argv ! index)) = []
            then Inl (runtime_error msg)
            else Inr (store (trim (after_equal (argv ! index))) s, index + 1))
       \<and> parse_loop argv index s =
           (if CHR ''='' \<notin> set (argv ! index) \<or> trim (after_equal (argv ! index)) = []
            then Inl (runtime_error msg)
            else parse_loop argv (index + 1) (store (trim (after_equal (argv ! index))) s))"
proof -
  have "loop_body argv index s =
          assign (\<lambda>a. store a s) (index + 1) (parse_equal_arg (argv ! index) msg)"
    using assms(1,3) by (rule loop_body_long)
  moreover note parse_loop_long [OF assms, of s]
  ultimately show ?thesis
    by (simp add: parse_equal_arg_eq assign_def)
qed

theorem long_option_value_after_equal_witness:
  "(''--dbname'', ''missing database argument'', \<lambda>a s. s\<lparr>database := a\<rparr>) \<in> set long_opts
   \<and> 1 < length [''pg_check_conn'', ''--dbname= a=b '']
   \<and> take (length ''--dbname'') ([''pg_check_conn'', ''--dbname= a=b ''] ! 1) = ''--dbname''
   \<and> loop_body [''pg_check_conn'', ''--dbname= a=b ''] 1 init_spec
       = Inr (init_spec\<lparr>database := ''a=b''\<rparr>, 2)
   \<and> parse_loop [''pg_check_conn'', ''--dbname= a=b ''] 1 init_spec
       = Inr (init_spec\<lparr>database := ''a=b''\<rparr>)"
proof -
  let ?argv = "[''pg_check_conn'', ''--dbname= a=b '']"
  have mem: "(''--dbname'', ''missing database argument'', \<lambda>a s. s\<lparr>database := a\<rparr>) \<in> set long_opts"
    by (simp add: long_opts_def)
  have lt: "1 < length ?argv" by simp
  have tok: "take (length ''--dbname'') (?argv ! 1) = ''--dbname''" by simp
  have tr: "trim (after_equal ''--dbname= a=b '') = ''a=b''" by code_simp
  from long_option_value_after_equal [OF mem lt tok, of init_spec] mem tr
  show ?thesis by (simp add: parse_loop_done)
qed

subsection \<open>What a successful parse leaves in the six strings\<close>

text \<open>
  C5. After a successful parse every one of the six strings is either empty (absent: it
  was never assigned) or a non-empty string that neither begins nor ends with whitespace.
  More generally, from any starting values the loop leaves each string either as it was or
  holding such a trimmed, non-empty value, so an empty string is never stored. An option
  whose value is blank makes the parse fail: a short option followed by a token that trims
  to the empty string, and a long option whose text after \<open>=\<close> trims to the empty string,
  anywhere in the arguments, end the parse in an error instead of a result.
\<close>

theorem fields_absent_or_trimmed:
  "(parse_args argv = Inr spec \<longrightarrow> (\<forall>f \<in> set fields. f spec = [] \<or> trimmed (f spec)))
   \<and> (parse_loop argv index s = Inr spec \<longrightarrow>
        (\<forall>f \<in> set fields. f spec = f s \<or> trimmed (f spec)))
   \<and> ((opt, msg, store) \<in> set short_opts \<and> 1 \<le> i \<and> i + 1 < length argv
        \<and> argv ! i = opt \<and> trim (argv ! (i + 1)) = [] \<longrightarrow>
        (\<exists>m. parse_args argv = Inl (out_of_range m) \<or> parse_args argv = Inl (runtime_error m)))
   \<and> ((name, msg, store) \<in> set long_opts \<and> 1 \<le> i \<and> i < length argv
        \<and> take (length name) (argv ! i) = name \<and> trim (after_equal (argv ! i)) = [] \<longrightarrow>
        (\<exists>m. parse_args argv = Inl (out_of_range m) \<or> parse_args argv = Inl (runtime_error m)))"
proof (intro conjI impI)
  assume "parse_args argv = Inr spec"
  then have "\<forall>f \<in> set fields. f spec = f init_spec \<or> trimmed (f spec)"
    unfolding parse_args_def by (rule parse_loop_fields)
  moreover have "\<forall>f \<in> set fields. f init_spec = []" by (simp add: fields_def init_spec_def)
  ultimately show "\<forall>f \<in> set fields. f spec = [] \<or> trimmed (f spec)" by metis
next
  assume "parse_loop argv index s = Inr spec"
  then show "\<forall>f \<in> set fields. f spec = f s \<or> trimmed (f spec)" by (rule parse_loop_fields)
next
  assume a: "(opt, msg, store) \<in> set short_opts \<and> 1 \<le> i \<and> i + 1 < length argv
        \<and> argv ! i = opt \<and> trim (argv ! (i + 1)) = []"
  then have mem: "(opt, msg, store) \<in> set short_opts" and tok: "argv ! i = opt" by simp_all
  from a have lt: "i < length argv" and i: "1 \<le> i" by simp_all
  have fails: "\<forall>s. \<exists>e. loop_body argv i s = Inl e"
    using a by (simp add: loop_body_short [OF mem tok] parse_next_arg_eq assign_def)
  from mem tok have "char0 (argv ! i) = CHR ''-''" by (simp add: short_opts_dash)
  from parse_loop_reaches [OF lt this fails i, of init_spec]
  obtain e where e: "parse_args argv = Inl e" unfolding parse_args_def ..
  then have "\<exists>m. e = out_of_range m \<or> e = runtime_error m"
    unfolding parse_args_def by (rule parse_loop_Inl)
  with e show "\<exists>m. parse_args argv = Inl (out_of_range m) \<or> parse_args argv = Inl (runtime_error m)"
    by metis
next
  assume a: "(name, msg, store) \<in> set long_opts \<and> 1 \<le> i \<and> i < length argv
        \<and> take (length name) (argv ! i) = name \<and> trim (after_equal (argv ! i)) = []"
  then have mem: "(name, msg, store) \<in> set long_opts"
    and tok: "take (length name) (argv ! i) = name" by simp_all
  from a have lt: "i < length argv" and i: "1 \<le> i" by simp_all
  have fails: "\<forall>s. \<exists>e. loop_body argv i s = Inl e"
    using a by (simp add: loop_body_long [OF mem tok] parse_equal_arg_eq assign_def)
  from mem tok have "char0 (argv ! i) = CHR ''-''" by (rule long_opts_dash)
  from parse_loop_reaches [OF lt this fails i, of init_spec]
  obtain e where e: "parse_args argv = Inl e" unfolding parse_args_def ..
  then have "\<exists>m. e = out_of_range m \<or> e = runtime_error m"
    unfolding parse_args_def by (rule parse_loop_Inl)
  with e show "\<exists>m. parse_args argv = Inl (out_of_range m) \<or> parse_args argv = Inl (runtime_error m)"
    by metis
qed


theorem fields_absent_or_trimmed_witness:
  "parse_args [''pg_check_conn'', ''-d'', '' sales '', ''--port= 5433'']
     = Inr (init_spec\<lparr>database := ''sales'', port := ''5433''\<rparr>)
   \<and> parse_loop [''pg_check_conn'', ''-d'', '' sales '', ''--port= 5433''] 1 init_spec
     = Inr (init_spec\<lparr>database := ''sales'', port := ''5433''\<rparr>)
   \<and> trimmed ''sales'' \<and> trimmed ''5433''
   \<and> trim ''  '' = []
   \<and> parse_args [''pg_check_conn'', ''-d'', ''  ''] = Inl (out_of_range ''missing database argument'')
   \<and> trim (after_equal ''--dbname= '') = []
   \<and> parse_args [''pg_check_conn'', ''--dbname= '']
     = Inl (runtime_error ''missing database argument'')"
proof -
  let ?A = "[''pg_check_conn'', ''-d'', '' sales '', ''--port= 5433'']"
  let ?S = "init_spec\<lparr>database := ''sales'', port := ''5433''\<rparr>"
  let ?B = "[''pg_check_conn'', ''-d'', ''  '']"
  let ?C = "[''pg_check_conn'', ''--dbname= '']"
  have p1: "parse_args ?A = Inr ?S" by code_simp
  then have p2: "parse_loop ?A 1 init_spec = Inr ?S" by (simp add: parse_args_def)
  have b: "trim ''  '' = []" by code_simp
  have c: "trim (after_equal ''--dbname= '') = []" by code_simp
  have pb: "parse_args ?B = Inl (out_of_range ''missing database argument'')" by code_simp
  have pc: "parse_args ?C = Inl (runtime_error ''missing database argument'')" by code_simp
  have hb: "(''-d'', ''missing database argument'', \<lambda>a s. s\<lparr>database := a\<rparr>) \<in> set short_opts
      \<and> (1::nat) \<le> 1 \<and> 1 + 1 < length ?B \<and> ?B ! 1 = ''-d'' \<and> trim (?B ! (1 + 1)) = []"
    using b by (simp add: short_opts_def)
  have hc: "(''--dbname'', ''missing database argument'', \<lambda>a s. s\<lparr>database := a\<rparr>) \<in> set long_opts
      \<and> (1::nat) \<le> 1 \<and> 1 < length ?C \<and> take (length ''--dbname'') (?C ! 1) = ''--dbname''
      \<and> trim (after_equal (?C ! 1)) = []"
    using c by (simp add: long_opts_def)
  note t = fields_absent_or_trimmed [where argv = ?A and spec = ?S and index = 1 and s = init_spec]
  from t p1 have "\<forall>f \<in> set fields. f ?S = [] \<or> trimmed (f ?S)" by blast
  then have "trimmed ''sales''" "trimmed ''5433''" by (simp_all add: fields_def)
  moreover from t p2 have "\<forall>f \<in> set fields. f ?S = f init_spec \<or> trimmed (f ?S)" by blast
  moreover from hb
    fields_absent_or_trimmed [where argv = ?B and i = 1 and opt = "''-d''"
      and msg = "''missing database argument''" and store = "\<lambda>a s. s\<lparr>database := a\<rparr>"]
  have "\<exists>m. parse_args ?B = Inl (out_of_range m) \<or> parse_args ?B = Inl (runtime_error m)"
    by blast
  moreover from hc
    fields_absent_or_trimmed [where argv = ?C and i = 1 and name = "''--dbname''"
      and msg = "''missing database argument''" and store = "\<lambda>a s. s\<lparr>database := a\<rparr>"]
  have "\<exists>m. parse_args ?C = Inl (out_of_range m) \<or> parse_args ?C = Inl (runtime_error m)"
    by blast
  ultimately show ?thesis using p1 p2 b c pb pc by simp
qed

subsection \<open>The value of a short option is not read as an option\<close>

text \<open>
  C10. When a short option takes the next token as its value, the pass moves the cursor
  two places, so the rest of the parse is the parse of the tokens after the value: the
  value token is never under the cursor. The pass changes at most one of the six strings.
  In particular \<open>-d port\<close> sets the database to \<open>port\<close> and nothing else.
\<close>

theorem short_option_value_skipped:
  assumes "(opt, msg, store) \<in> set short_opts" and "index < length argv" and "argv ! index = opt"
    and "index + 1 < length argv" and "take 1 (argv ! (index + 1)) \<noteq> ''-''"
    and "trim (argv ! (index + 1)) \<noteq> []"
  shows "loop_body argv index s = Inr (store (trim (argv ! (index + 1))) s, index + 2)
       \<and> parse_loop argv index s
           = parse_loop (drop (index + 2) argv) 0 (store (trim (argv ! (index + 1))) s)
       \<and> length (filter (\<lambda>f. f (store (trim (argv ! (index + 1))) s) \<noteq> f s) fields) \<le> 1
       \<and> parse_args [''pg_check_conn'', ''-d'', ''port'']
           = Inr \<lparr>database = ''port'', username = [], host = [], hostaddr = [], port = [],
                  timeout = []\<rparr>"
proof (intro conjI)
  have pn: "parse_next_arg argv index msg = Inr (trim (argv ! (index + 1)))"
    using assms(4-6) by (simp add: parse_next_arg_eq char0_dash)
  then show "loop_body argv index s = Inr (store (trim (argv ! (index + 1))) s, index + 2)"
    by (simp add: loop_body_short [OF assms(1,3)] assign_def)
  from pn have "parse_loop argv index s
      = parse_loop argv (index + 2) (store (trim (argv ! (index + 1))) s)"
    by (simp add: parse_loop_short [OF assms(1-3)])
  also have "\<dots> = parse_loop (drop (index + 2) argv) 0 (store (trim (argv ! (index + 1))) s)"
    by (rule parse_loop_drop)
  finally show "parse_loop argv index s
      = parse_loop (drop (index + 2) argv) 0 (store (trim (argv ! (index + 1))) s)" .
  show "length (filter (\<lambda>f. f (store (trim (argv ! (index + 1))) s) \<noteq> f s) fields) \<le> 1"
    using assms(1) by (rule short_opts_one_field)
  show "parse_args [''pg_check_conn'', ''-d'', ''port'']
      = Inr \<lparr>database = ''port'', username = [], host = [], hostaddr = [], port = [],
             timeout = []\<rparr>"
    by code_simp
qed

theorem short_option_value_skipped_witness:
  "(''-d'', ''missing database argument'', \<lambda>a s. s\<lparr>database := a\<rparr>) \<in> set short_opts
   \<and> 1 < length [''pg_check_conn'', ''-d'', ''port'', ''-p'', ''5433'']
   \<and> [''pg_check_conn'', ''-d'', ''port'', ''-p'', ''5433''] ! 1 = ''-d''
   \<and> 1 + 1 < length [''pg_check_conn'', ''-d'', ''port'', ''-p'', ''5433'']
   \<and> take 1 ([''pg_check_conn'', ''-d'', ''port'', ''-p'', ''5433''] ! (1 + 1)) \<noteq> ''-''
   \<and> trim ([''pg_check_conn'', ''-d'', ''port'', ''-p'', ''5433''] ! (1 + 1)) = ''port''
   \<and> loop_body [''pg_check_conn'', ''-d'', ''port'', ''-p'', ''5433''] 1 init_spec
       = Inr (init_spec\<lparr>database := ''port''\<rparr>, 3)
   \<and> parse_loop [''pg_check_conn'', ''-d'', ''port'', ''-p'', ''5433''] 1 init_spec
       = parse_loop [''-p'', ''5433''] 0 (init_spec\<lparr>database := ''port''\<rparr>)"
proof -
  let ?argv = "[''pg_check_conn'', ''-d'', ''port'', ''-p'', ''5433'']"
  have mem: "(''-d'', ''missing database argument'', \<lambda>a s. s\<lparr>database := a\<rparr>) \<in> set short_opts"
    by (simp add: short_opts_def)
  have lt: "1 < length ?argv" by simp
  have tok: "?argv ! 1 = ''-d''" by simp
  have nxt: "1 + 1 < length ?argv" by simp
  have dash: "take 1 (?argv ! (1 + 1)) \<noteq> ''-''" by simp
  have tr: "trim ''port'' = ''port''" by code_simp
  then have ne: "trim (?argv ! (1 + 1)) \<noteq> []" by simp
  from short_option_value_skipped [OF mem lt tok nxt dash ne, of init_spec] mem tr
  show ?thesis by simp
qed

subsection \<open>The short and the long form of an option\<close>

text \<open>
  The two forms do not agree on every value: a value that begins with \<open>-\<close> is refused
  after \<open>-d\<close>, by the test of line 57, and accepted after \<open>--dbname=\<close>.
\<close>

theorem short_and_long_form_differ:
  "parse_args [''pg_check_conn'', ''-d'', ''-x'']
     = Inl (out_of_range ''missing database argument'')
   \<and> parse_args [''pg_check_conn'', ''--dbname=-x'']
     = Inr \<lparr>database = ''-x'', username = [], host = [], hostaddr = [], port = [],
            timeout = []\<rparr>"
  by code_simp

text \<open>
  C7 (as the code has it). For a short and a long option of the same string (the rows with
  the same message) and every value that does not begin with \<open>-\<close>, the two forms give the
  same outcome anywhere in an argument list: the same six strings when the parse succeeds,
  the same message when it fails. Alone on the command line, both store the trimmed value
  when it is not blank, and both fail with the option's message when it is. For every value
  that begins with \<open>-\<close> the two forms differ: the short form is rejected with the option's
  message, alone on the command line and in the pass that reads it at any position, so that
  the whole parse fails; the long form is accepted, and its pass stores the trimmed value,
  which is not empty.
\<close>

theorem short_and_long_form_agree:
  assumes "(sopt, msg, store) \<in> set short_opts" and "(lopt, msg, store') \<in> set long_opts"
  shows "(take 1 v \<noteq> ''-'' \<longrightarrow>
            map_sum what id (parse_args (prog # pre @ [sopt, v] @ post))
              = map_sum what id (parse_args (prog # pre @ [lopt @ ''='' @ v] @ post))
          \<and> parse_args [prog, sopt, v] =
              (if trim v = [] then Inl (out_of_range msg) else Inr (store (trim v) init_spec))
          \<and> parse_args [prog, lopt @ ''='' @ v] =
              (if trim v = [] then Inl (runtime_error msg) else Inr (store (trim v) init_spec)))
       \<and> (take 1 v = ''-'' \<longrightarrow>
            trim v \<noteq> []
          \<and> parse_args [prog, sopt, v] = Inl (out_of_range msg)
          \<and> parse_args [prog, lopt @ ''='' @ v] = Inr (store (trim v) init_spec)
          \<and> loop_body (pre @ [sopt, v] @ post) (length pre) s = Inl (out_of_range msg)
          \<and> loop_body (pre @ [lopt @ ''='' @ v] @ post) (length pre) s
              = Inr (store (trim v) s, length pre + 1)
          \<and> (\<exists>m. parse_args (prog # pre @ [sopt, v] @ post) = Inl (out_of_range m)
                \<or> parse_args (prog # pre @ [sopt, v] @ post) = Inl (runtime_error m)))"
proof (intro conjI impI)
  have st: "store' = store" using assms(1,2) by (rule opts_same_store)
  note lg = parse_loop_long_hd [OF assms(2), unfolded st]
  have x: "char0 sopt = CHR ''-''" using assms(1) by (rule short_opts_dash)
  have y: "char0 (lopt @ ''='' @ v) = CHR ''-''"
    using assms(2) by (rule long_opts_dash) simp
  {
    assume nd: "take 1 v \<noteq> ''-''"
    note sh = parse_loop_short_hd [OF assms(1) nd]
    have base: "map_sum what id (parse_loop (sopt # v # post) 0 s)
              = map_sum what id (parse_loop ((lopt @ ''='' @ v) # post) 0 s)" for s
      by (simp add: sh lg)
    have "map_sum what id (parse_loop (pre @ sopt # v # post) 0 init_spec)
        = map_sum what id (parse_loop (pre @ (lopt @ ''='' @ v) # post) 0 init_spec)"
      using x y base by (rule parse_loop_context)
    then show "map_sum what id (parse_args (prog # pre @ [sopt, v] @ post))
             = map_sum what id (parse_args (prog # pre @ [lopt @ ''='' @ v] @ post))"
      by (simp add: parse_args_Cons)
    show "parse_args [prog, sopt, v] =
             (if trim v = [] then Inl (out_of_range msg) else Inr (store (trim v) init_spec))"
      by (simp add: parse_args_Cons sh parse_loop_done)
    show "parse_args [prog, lopt @ ''='' @ v] =
             (if trim v = [] then Inl (runtime_error msg) else Inr (store (trim v) init_spec))"
      by (simp add: parse_args_Cons lg parse_loop_done)
  }
  {
    assume d: "take 1 v = ''-''"
    then show ne: "trim v \<noteq> []" by (rule trim_dash)
    have "loop_body ([] @ sopt # v # []) (length ([] :: string list)) init_spec
            = Inl (out_of_range msg)"
      using assms(1) d by (rule loop_body_short_dash)
    then have "loop_body [sopt, v] 0 init_spec = Inl (out_of_range msg)" by simp
    then have "parse_loop [sopt, v] 0 init_spec = Inl (out_of_range msg)"
      by (simp add: parse_loop_Inl_step)
    then show "parse_args [prog, sopt, v] = Inl (out_of_range msg)"
      by (simp add: parse_args_Cons)
    from ne show "parse_args [prog, lopt @ ''='' @ v] = Inr (store (trim v) init_spec)"
      by (simp add: parse_args_Cons lg parse_loop_done)
    show "loop_body (pre @ [sopt, v] @ post) (length pre) s = Inl (out_of_range msg)"
      using loop_body_short_dash [OF assms(1) d, of pre post s] by simp
    show "loop_body (pre @ [lopt @ ''='' @ v] @ post) (length pre) s
              = Inr (store (trim v) s, length pre + 1)"
      using loop_body_long_value [OF assms(2) ne, of pre post s] by (simp add: st)
    show "\<exists>m. parse_args (prog # pre @ [sopt, v] @ post) = Inl (out_of_range m)
                \<or> parse_args (prog # pre @ [sopt, v] @ post) = Inl (runtime_error m)"
      using parse_args_short_dash [OF assms(1) d, of prog pre post] by simp
  }
qed

theorem short_and_long_form_agree_witness:
  "(''-p'', ''missing port argument'', \<lambda>a s. s\<lparr>port := a\<rparr>) \<in> set short_opts
   \<and> (''--port'', ''missing port argument'', \<lambda>a s. s\<lparr>port := a\<rparr>) \<in> set long_opts
   \<and> take 1 ''5433'' \<noteq> ''-''
   \<and> map_sum what id (parse_args [''pg_check_conn'', ''-d'', ''sales'', ''-p'', ''5433'', ''-t'', ''5''])
       = map_sum what id (parse_args [''pg_check_conn'', ''-d'', ''sales'', ''--port=5433'', ''-t'', ''5''])
   \<and> parse_args [''pg_check_conn'', ''-p'', ''5433''] = Inr (init_spec\<lparr>port := ''5433''\<rparr>)
   \<and> parse_args [''pg_check_conn'', ''--port=5433''] = Inr (init_spec\<lparr>port := ''5433''\<rparr>)
   \<and> take 1 ''-1'' = ''-''
   \<and> parse_args [''pg_check_conn'', ''-p'', ''-1''] = Inl (out_of_range ''missing port argument'')
   \<and> parse_args [''pg_check_conn'', ''--port=-1''] = Inr (init_spec\<lparr>port := ''-1''\<rparr>)
   \<and> loop_body [''pg_check_conn'', ''-d'', ''sales'', ''-p'', ''-1'', ''-t'', ''5''] 3 init_spec
       = Inl (out_of_range ''missing port argument'')
   \<and> loop_body [''pg_check_conn'', ''-d'', ''sales'', ''--port=-1'', ''-t'', ''5''] 3 init_spec
       = Inr (init_spec\<lparr>port := ''-1''\<rparr>, 4)"
proof -
  have s: "(''-p'', ''missing port argument'', \<lambda>a s. s\<lparr>port := a\<rparr>) \<in> set short_opts"
    by (simp add: short_opts_def)
  have l: "(''--port'', ''missing port argument'', \<lambda>a s. s\<lparr>port := a\<rparr>) \<in> set long_opts"
    by (simp add: long_opts_def)
  have v: "take 1 ''5433'' \<noteq> ''-''" by simp
  have d: "take 1 ''-1'' = ''-''" by simp
  have tr: "trim ''5433'' = ''5433''" by code_simp
  have td: "trim ''-1'' = ''-1''" by code_simp
  note a = short_and_long_form_agree [OF s l, of "''5433''" "''pg_check_conn''"
      "[''-d'', ''sales'']" "[''-t'', ''5'']" init_spec, THEN conjunct1, THEN mp, OF v]
  note b = short_and_long_form_agree [OF s l, of "''-1''" "''pg_check_conn''"
      "[''pg_check_conn'', ''-d'', ''sales'']" "[''-t'', ''5'']" init_spec,
      THEN conjunct2, THEN mp, OF d]
  from a b s l tr td show ?thesis by (simp add: eval_nat_numeral)
qed

subsection \<open>The connection string\<close>

text \<open>
  C6. The connection string is the concatenation, in the fixed order \<open>dbname\<close>, \<open>user\<close>,
  \<open>hostaddr\<close>, \<open>host\<close>, \<open>port\<close>, \<open>connect_timeout\<close>, of \<open>key=value\<close> followed by one space for
  each string that is not empty, and of nothing for an empty one. With all six empty, as
  after a command line without arguments, it is the empty string. The order on the command
  line plays no part: the options of the documented example, given in the reverse order and
  in other forms, build the string in the same fixed order.
\<close>

theorem connstr_fixed_order:
  "build_connstr s =
     concat (map (\<lambda>(key, v). if v = [] then [] else key @ ''='' @ v @ '' '')
       [(''dbname'', database s), (''user'', username s), (''hostaddr'', hostaddr s),
        (''host'', host s), (''port'', port s), (''connect_timeout'', timeout s)])
   \<and> build_connstr
        \<lparr>database = [], username = [], host = [], hostaddr = [], port = [], timeout = []\<rparr> = []
   \<and> map_sum id build_connstr (parse_args [''pg_check_conn'']) = Inr []
   \<and> map_sum id build_connstr
        (parse_args [''pg_check_conn'', ''-t'', ''5'', ''--port=5433'', ''-h'', ''db.internal'',
                     ''--hostaddr=10.0.0.5'', ''-U'', ''alice'', ''-d'', ''sales''])
       = Inr ''dbname=sales user=alice hostaddr=10.0.0.5 host=db.internal port=5433 connect_timeout=5 ''"
proof (intro conjI)
  show "build_connstr s =
     concat (map (\<lambda>(key, v). if v = [] then [] else key @ ''='' @ v @ '' '')
       [(''dbname'', database s), (''user'', username s), (''hostaddr'', hostaddr s),
        (''host'', host s), (''port'', port s), (''connect_timeout'', timeout s)])"
    by (simp add: build_connstr_def is_empty_def Let_def)
  show "build_connstr
        \<lparr>database = [], username = [], host = [], hostaddr = [], port = [], timeout = []\<rparr> = []"
    by (simp add: build_connstr_def is_empty_def)
  show "map_sum id build_connstr (parse_args [''pg_check_conn'']) = Inr []"
    by code_simp
  show "map_sum id build_connstr
        (parse_args [''pg_check_conn'', ''-t'', ''5'', ''--port=5433'', ''-h'', ''db.internal'',
                     ''--hostaddr=10.0.0.5'', ''-U'', ''alice'', ''-d'', ''sales''])
       = Inr ''dbname=sales user=alice hostaddr=10.0.0.5 host=db.internal port=5433 connect_timeout=5 ''"
    by code_simp
qed

subsection \<open>Reporting\<close>

text \<open>
  C1. Every run of \<open>main\<close> is one of four. A parse error writes \<open>Error: \<close> and its message
  to standard error, nothing else, and returns -1. Otherwise the connection is attempted
  (after the optional debug line). Without a handle, \<open>Error: \<close> and the library's message go
  to standard output and the result is -1. With a handle whose status is not
  \<open>CONNECTION_OK\<close>, the same line goes to standard output, the result is that status, and the
  handle is released. With a handle whose status is \<open>CONNECTION_OK\<close> nothing more is written,
  the handle is released and the result is 0. The handlers treat any other
  \<open>std::exception\<close> like a parse error: standard error and -1.
\<close>

theorem reporter_channels_and_codes:
  "main lib pgdebug argv =
     (case parse_args argv of
        Inl ex \<Rightarrow> ([Stderr (''Error: '' @ what ex @ endl)], - 1)
      | Inr s \<Rightarrow>
          (case PQconnectdb lib (build_connstr s) of
             None \<Rightarrow>
               (debug_logging pgdebug (build_connstr s) @
                  [Connect (build_connstr s),
                   Stdout (''Error: '' @ PQerrorMessage lib None @ endl)], - 1)
           | Some c \<Rightarrow>
               if PQstatus lib c = CONNECTION_OK
               then (debug_logging pgdebug (build_connstr s) @
                       [Connect (build_connstr s), Finish], 0)
               else (debug_logging pgdebug (build_connstr s) @
                       [Connect (build_connstr s),
                        Stdout (''Error: '' @ PQerrorMessage lib (Some c) @ endl), Finish],
                     PQstatus lib c)))
   \<and> handlers lib conn (Inl (other_exception m)) = ([Stderr (''Error: '' @ m @ endl)], - 1)
   \<and> handlers lib conn (Inl (ConnException m)) =
       ([Stdout (''Error: '' @ m @ endl)], case conn of Some c \<Rightarrow> PQstatus lib c | None \<Rightarrow> - 1)
   \<and> handlers lib conn (Inr ()) = ([], 0)"
proof (intro conjI)
  show "main lib pgdebug argv =
     (case parse_args argv of
        Inl ex \<Rightarrow> ([Stderr (''Error: '' @ what ex @ endl)], - 1)
      | Inr s \<Rightarrow>
          (case PQconnectdb lib (build_connstr s) of
             None \<Rightarrow>
               (debug_logging pgdebug (build_connstr s) @
                  [Connect (build_connstr s),
                   Stdout (''Error: '' @ PQerrorMessage lib None @ endl)], - 1)
           | Some c \<Rightarrow>
               if PQstatus lib c = CONNECTION_OK
               then (debug_logging pgdebug (build_connstr s) @
                       [Connect (build_connstr s), Finish], 0)
               else (debug_logging pgdebug (build_connstr s) @
                       [Connect (build_connstr s),
                        Stdout (''Error: '' @ PQerrorMessage lib (Some c) @ endl), Finish],
                     PQstatus lib c)))"
  proof (cases "parse_args argv")
    case (Inl ex)
    then show ?thesis by (simp add: main_parse_error)
  next
    case (Inr s)
    show ?thesis
    proof (cases "PQconnectdb lib (build_connstr s)")
      case None
      with Inr show ?thesis by (simp add: main_no_handle)
    next
      case (Some c)
      with Inr show ?thesis by (simp add: main_handle)
    qed
  qed
qed (simp_all add: handlers_def)

subsection \<open>The debug line\<close>

text \<open>
  The debug line does not require \<open>PGDEBUG\<close> to be exactly \<open>1\<close>: line 187 tests the first
  character only, and the value \<open>10\<close> produces the line.
\<close>

theorem debug_echo_longer_value:
  "main lib_refused (Some ''10'') [''pg_check_conn'', ''-d'', ''sales'']
     = ([Stdout (''Conn string: dbname=sales '' @ endl), Connect ''dbname=sales '',
         Stdout (''Error: connection refused'' @ endl), Finish], 1)
   \<and> ''10'' \<noteq> ''1''"
  by code_simp

text \<open>
  C2 (as the code has it). When the arguments parse, the line \<open>Conn string: \<close> followed by
  the connection string is written to standard output if and only if \<open>PGDEBUG\<close> is set and its
  first character is \<open>1\<close>; when written it is the only event before the connection attempt,
  and otherwise nothing precedes the attempt.
\<close>

theorem debug_echo_first_char:
  assumes "parse_args argv = Inr s"
  shows "(Stdout (''Conn string: '' @ build_connstr s @ endl) \<in> set (fst (main lib pgdebug argv)))
           = (\<exists>rest. pgdebug = Some (CHR ''1'' # rest))
       \<and> takeWhile (\<lambda>e. e \<noteq> Connect (build_connstr s)) (fst (main lib pgdebug argv))
           = (if \<exists>rest. pgdebug = Some (CHR ''1'' # rest)
              then [Stdout (''Conn string: '' @ build_connstr s @ endl)] else [])"
proof -
  from main_trace_split [OF assms, of lib pgdebug] obtain rest
    where tr: "fst (main lib pgdebug argv)
                 = debug_logging pgdebug (build_connstr s) @ Connect (build_connstr s) # rest"
      and rest: "\<forall>e \<in> set rest. \<exists>m. e = Stdout (''Error: '' @ m) \<or> e = Finish"
    by blast
  have "Stdout (''Conn string: '' @ build_connstr s @ endl) \<notin> set rest"
  proof
    assume "Stdout (''Conn string: '' @ build_connstr s @ endl) \<in> set rest"
    with rest obtain m where "Stdout (''Conn string: '' @ build_connstr s @ endl) = Stdout (''Error: '' @ m)
        \<or> Stdout (''Conn string: '' @ build_connstr s @ endl) = Finish" by blast
    then show False by simp
  qed
  then show ?thesis unfolding tr debug_logging_eq by (simp add: takeWhile_append)
qed

theorem debug_echo_first_char_witness:
  "parse_args [''pg_check_conn'', ''-d'', ''sales'']
     = Inr (init_spec\<lparr>database := ''sales''\<rparr>)
   \<and> build_connstr (init_spec\<lparr>database := ''sales''\<rparr>) = ''dbname=sales ''
   \<and> Stdout (''Conn string: dbname=sales '' @ endl)
       \<in> set (fst (main lib_accepting (Some ''1abc'') [''pg_check_conn'', ''-d'', ''sales'']))
   \<and> takeWhile (\<lambda>e. e \<noteq> Connect ''dbname=sales '')
        (fst (main lib_accepting (Some ''1abc'') [''pg_check_conn'', ''-d'', ''sales'']))
       = [Stdout (''Conn string: dbname=sales '' @ endl)]"
proof -
  have p: "parse_args [''pg_check_conn'', ''-d'', ''sales''] = Inr (init_spec\<lparr>database := ''sales''\<rparr>)"
    by code_simp
  have b: "build_connstr (init_spec\<lparr>database := ''sales''\<rparr>) = ''dbname=sales ''"
    by code_simp
  from debug_echo_first_char [OF p, of lib_accepting "Some ''1abc''"] p b
  show ?thesis by simp
qed

subsection \<open>No silent failure\<close>

text \<open>
  C8. \<open>main\<close> returns 0 exactly when the arguments parse, the library returns a handle and
  the handle's status is \<open>CONNECTION_OK\<close>. In every other run the result is not 0 and a line
  \<open>Error: \<close> with a message is written, to standard output or to standard error.
\<close>

theorem failure_reports_and_nonzero:
  "(snd (main lib pgdebug argv) = 0)
     = (\<exists>s c. parse_args argv = Inr s \<and> PQconnectdb lib (build_connstr s) = Some c
              \<and> PQstatus lib c = CONNECTION_OK)
   \<and> (\<not> (\<exists>s c. parse_args argv = Inr s \<and> PQconnectdb lib (build_connstr s) = Some c
              \<and> PQstatus lib c = CONNECTION_OK) \<longrightarrow>
      snd (main lib pgdebug argv) \<noteq> 0
      \<and> (\<exists>m. Stdout (''Error: '' @ m @ endl) \<in> set (fst (main lib pgdebug argv))
            \<or> Stderr (''Error: '' @ m @ endl) \<in> set (fst (main lib pgdebug argv))))"
proof -
  let ?ok = "\<exists>s c. parse_args argv = Inr s \<and> PQconnectdb lib (build_connstr s) = Some c
              \<and> PQstatus lib c = CONNECTION_OK"
  let ?line = "\<lambda>m. Stdout (''Error: '' @ m @ endl) \<in> set (fst (main lib pgdebug argv))
            \<or> Stderr (''Error: '' @ m @ endl) \<in> set (fst (main lib pgdebug argv))"
  have "(?ok \<and> snd (main lib pgdebug argv) = 0)
      \<or> (\<not> ?ok \<and> snd (main lib pgdebug argv) \<noteq> 0 \<and> (\<exists>m. ?line m))"
  proof (cases "parse_args argv")
    case (Inl ex)
    then have "\<not> ?ok" by simp
    moreover from Inl have "snd (main lib pgdebug argv) \<noteq> 0" by (simp add: main_parse_error)
    moreover from Inl have "?line (what ex)" by (simp add: main_parse_error)
    ultimately show ?thesis by blast
  next
    case (Inr s)
    show ?thesis
    proof (cases "PQconnectdb lib (build_connstr s)")
      case None
      with Inr have "\<not> ?ok" by simp
      moreover from Inr None have "snd (main lib pgdebug argv) \<noteq> 0"
        by (simp add: main_no_handle)
      moreover from Inr None have "?line (PQerrorMessage lib None)"
        by (simp add: main_no_handle)
      ultimately show ?thesis by blast
    next
      case (Some c)
      show ?thesis
      proof (cases "PQstatus lib c = CONNECTION_OK")
        case True
        with Inr Some have "?ok" by simp
        moreover from Inr Some True have "snd (main lib pgdebug argv) = 0"
          by (simp add: main_handle)
        ultimately show ?thesis by blast
      next
        case False
        with Inr Some have "\<not> ?ok" by simp
        moreover from Inr Some False have "snd (main lib pgdebug argv) \<noteq> 0"
          by (simp add: main_handle CONNECTION_OK_def)
        moreover from Inr Some False have "?line (PQerrorMessage lib (Some c))"
          by (simp add: main_handle)
        ultimately show ?thesis by blast
      qed
    qed
  qed
  then show ?thesis by blast
qed

theorem failure_reports_and_nonzero_witness:
  "main lib_refused None [''pg_check_conn'', ''-d'', ''sales'']
     = ([Connect ''dbname=sales '', Stdout (''Error: connection refused'' @ endl), Finish], 1)
   \<and> main lib_no_handle None [''pg_check_conn'', ''-d'', ''sales'']
     = ([Connect ''dbname=sales '', Stdout (''Error: out of memory'' @ endl)], - 1)
   \<and> main lib_accepting None [''pg_check_conn'', ''-d'']
     = ([Stderr (''Error: missing database argument'' @ endl)], - 1)
   \<and> snd (main lib_refused None [''pg_check_conn'', ''-d'', ''sales'']) \<noteq> 0"
proof -
  let ?argv = "[''pg_check_conn'', ''-d'', ''sales'']"
  have p: "parse_args ?argv = Inr (init_spec\<lparr>database := ''sales''\<rparr>)" by code_simp
  have st: "PQstatus lib_refused () \<noteq> CONNECTION_OK"
    by (simp add: lib_refused_def CONNECTION_OK_def)
  have hyp: "\<not> (\<exists>s c. parse_args ?argv = Inr s \<and> PQconnectdb lib_refused (build_connstr s) = Some c
              \<and> PQstatus lib_refused c = CONNECTION_OK)"
    using st by simp
  have m1: "main lib_refused None ?argv
     = ([Connect ''dbname=sales '', Stdout (''Error: connection refused'' @ endl), Finish], 1)"
    by code_simp
  have m2: "main lib_no_handle None ?argv
     = ([Connect ''dbname=sales '', Stdout (''Error: out of memory'' @ endl)], - 1)"
    by code_simp
  have m3: "main lib_accepting None [''pg_check_conn'', ''-d'']
     = ([Stderr (''Error: missing database argument'' @ endl)], - 1)"
    by code_simp
  from failure_reports_and_nonzero [of lib_refused None ?argv, THEN conjunct2, THEN mp, OF hyp]
  have "snd (main lib_refused None ?argv) \<noteq> 0" by (rule conjunct1)
  with m1 m2 m3 show ?thesis by (intro conjI)
qed

end
